theory Spec2Isabelle
  imports Complex_Main
begin

section \<open>Strings\<close>

text \<open>
  A Python \<open>str\<close> is modelled as a \<open>string\<close>, one \<open>char\<close> per code point; the model
  covers the code points below 256. The helpers below are the \<open>str\<close> methods the two
  stages call, each on that range.
\<close>

definition isspace :: "char \<Rightarrow> bool" where
  \<comment> \<open>\<open>str.isspace\<close> for one character: TAB..CR, FS..US, space, NEL and NBSP.\<close>
  "isspace c =
     (let n = (of_char c :: nat)
      in (9 \<le> n \<and> n \<le> 13) \<or> (28 \<le> n \<and> n \<le> 32) \<or> n = 133 \<or> n = 160)"

definition lstrip :: "string \<Rightarrow> string" where
  "lstrip s = dropWhile isspace s"

definition rstrip :: "string \<Rightarrow> string" where
  "rstrip s = rev (dropWhile isspace (rev s))"

definition strip :: "string \<Rightarrow> string" where
  "strip s = rstrip (lstrip s)"

definition rstrip_chars :: "string \<Rightarrow> string \<Rightarrow> string" where
  \<comment> \<open>\<open>s.rstrip(chars)\<close>\<close>
  "rstrip_chars chars s = rev (dropWhile (\<lambda>c. c \<in> set chars) (rev s))"

definition lower_char :: "char \<Rightarrow> char" where
  \<comment> \<open>\<open>str.lower\<close> for one character: A..Z and the Latin-1 capitals but the
      multiplication sign.\<close>
  "lower_char c =
     (let n = (of_char c :: nat)
      in if (65 \<le> n \<and> n \<le> 90) \<or> (192 \<le> n \<and> n \<le> 222 \<and> n \<noteq> 215)
         then char_of (n + 32) else c)"

definition lower :: "string \<Rightarrow> string" where
  "lower s = map lower_char s"

fun startswith :: "string \<Rightarrow> string \<Rightarrow> bool" where
  \<comment> \<open>\<open>s.startswith(p)\<close>\<close>
  "startswith s [] = True"
| "startswith [] (p # ps) = False"
| "startswith (c # s) (p # ps) = (c = p \<and> startswith s ps)"

fun contains :: "string \<Rightarrow> string \<Rightarrow> bool" where
  \<comment> \<open>\<open>k in s\<close> for two strings\<close>
  "contains k [] = (k = [])"
| "contains k (c # s) = (startswith (c # s) k \<or> contains k s)"

definition truthy :: "string option \<Rightarrow> bool" where
  \<comment> \<open>the truth value of a value that is \<open>None\<close> or a \<open>str\<close>\<close>
  "truthy v = (case v of None \<Rightarrow> False | Some s \<Rightarrow> s \<noteq> [])"

section \<open>fetcher.py: configuration\<close>

definition MAX_RETRIES :: nat where
  "MAX_RETRIES = 3"

definition BACKOFF_BASE :: nat where
  "BACKOFF_BASE = 2"

section \<open>fetcher.py: the key of the failed set\<close>

text \<open>
  \<open>urlparse(url).netloc\<close>, after \<open>urllib.parse.urlsplit\<close>: leading C0 control characters
  and spaces are dropped, TAB, CR and LF are removed, a scheme (a letter, then letters,
  digits, \<open>+\<close>, \<open>-\<close>, \<open>.\<close>, up to the first colon) is split off, and when the rest starts
  with \<open>//\<close> the netloc is what follows, up to the first \<open>/\<close>, \<open>?\<close> or \<open>#\<close>. The checks
  of a bracketed (IPv6) or non-ASCII authority, which only raise, are outside the model.
\<close>

definition is_ascii_alpha :: "char \<Rightarrow> bool" where
  "is_ascii_alpha c =
     (let n = (of_char c :: nat) in (65 \<le> n \<and> n \<le> 90) \<or> (97 \<le> n \<and> n \<le> 122))"

definition is_ascii_digit :: "char \<Rightarrow> bool" where
  "is_ascii_digit c = (let n = (of_char c :: nat) in 48 \<le> n \<and> n \<le> 57)"

definition scheme_char :: "char \<Rightarrow> bool" where
  "scheme_char c = (is_ascii_alpha c \<or> is_ascii_digit c \<or> c \<in> set ''+-.'')"

definition c0_or_space :: "char \<Rightarrow> bool" where
  "c0_or_space c = ((of_char c :: nat) \<le> 32)"

definition unsafe_url_byte :: "char \<Rightarrow> bool" where
  "unsafe_url_byte c = ((of_char c :: nat) \<in> {9, 10, 13})"

definition split_scheme :: "string \<Rightarrow> string \<times> string" where
  \<comment> \<open>the scheme (lowered) and the rest; no scheme when there is no colon, the colon is
      first, the first character is no letter, or a character before the colon is no
      scheme character\<close>
  "split_scheme url =
     (let pre = takeWhile (\<lambda>c. c \<noteq> CHR '':'') url
      in if length pre < length url \<and> pre \<noteq> [] \<and> is_ascii_alpha (hd pre)
            \<and> list_all scheme_char pre
         then (lower pre, drop (Suc (length pre)) url)
         else ([], url))"

definition netloc :: "string \<Rightarrow> string" where
  "netloc url0 =
     (let url = filter (\<lambda>c. \<not> unsafe_url_byte c) (dropWhile c0_or_space url0);
          rest = snd (split_scheme url)
      in if take 2 rest = ''//''
         then takeWhile (\<lambda>c. c \<notin> set ''/?#'') (drop 2 rest)
         else [])"

definition get_domain :: "string \<Rightarrow> string" where
  \<comment> \<open>\<open>_get_domain\<close>\<close>
  "get_domain url = lower (netloc url)"

section \<open>fetcher.py: the HTTP session and its failures\<close>

type_synonym headers = "(string \<times> string) list"

record response =
  status_code :: int
  resp_text :: string
  resp_headers :: headers

text \<open>An exception: the name of its type and its \<open>__cause__\<close>.\<close>

datatype exc = Exc (exc_name: string) (exc_cause: "exc option")

text \<open>
  What one \<open>SESSION.get\<close> does: it returns a response, raises a
  \<open>requests.ConnectionError\<close>, or raises another \<open>requests.RequestException\<close> (a timeout
  among them).
\<close>

datatype get_outcome =
    Returned response
  | RaisedConnectionError exc
  | RaisedRequestException exc

datatype event = Get string | Sleep rat

text \<open>
  The state of one run of the fetcher process: the failed set, the network (what the
  \<open>n\<close>-th \<open>SESSION.get\<close> of the run does, given its URL and headers), the number of
  requests made so far, and the requests and waits in the order they happened.
\<close>

record world =
  failed_domains :: "string set"
  net :: "nat \<Rightarrow> string \<Rightarrow> headers \<Rightarrow> get_outcome"
  gets :: nat
  trace :: "event list"

definition fresh_world :: "(nat \<Rightarrow> string \<Rightarrow> headers \<Rightarrow> get_outcome) \<Rightarrow> world" where
  \<comment> \<open>the state a fetcher process starts in, on a given network\<close>
  "fresh_world n = \<lparr>failed_domains = {}, net = n, gets = 0, trace = []\<rparr>"

definition session_get :: "world \<Rightarrow> string \<Rightarrow> headers \<Rightarrow> get_outcome \<times> world" where
  "session_get w url hs =
     (net w (gets w) url hs, w\<lparr>gets := Suc (gets w), trace := trace w @ [Get url]\<rparr>)"

definition sleep :: "rat \<Rightarrow> world \<Rightarrow> world" where
  "sleep secs w = w\<lparr>trace := trace w @ [Sleep secs]\<rparr>"

fun root_cause :: "exc \<Rightarrow> exc" where
  \<comment> \<open>the walk down the \<open>__cause__\<close> chain\<close>
  "root_cause (Exc n None) = Exc n None"
| "root_cause (Exc n (Some c)) = root_cause c"

definition is_non_retryable_error :: "exc \<Rightarrow> bool" where
  \<comment> \<open>\<open>_is_non_retryable_error\<close>\<close>
  "is_non_retryable_error e =
     (let cause = (case exc_cause e of Some c \<Rightarrow> c | None \<Rightarrow> e);
          name = exc_name (root_cause cause)
      in list_ex (\<lambda>k. contains k name) [''NameResolution'', ''gaierror'', ''ConnectionRefused''])"

definition raises_for_status :: "response \<Rightarrow> bool" where
  \<comment> \<open>whether \<open>resp.raise_for_status()\<close> raises its \<open>HTTPError\<close>\<close>
  "raises_for_status r = (400 \<le> status_code r \<and> status_code r < 600)"

definition backoff_wait :: "nat \<Rightarrow> world \<Rightarrow> world" where
  \<comment> \<open>the end of both retrying handlers\<close>
  "backoff_wait attempt w =
     (let wait = BACKOFF_BASE ^ attempt
      in if attempt < MAX_RETRIES - 1 then sleep (of_nat wait) w else w)"

text \<open>
  The loop of \<open>fetch_with_backoff\<close> over the attempts left: \<open>Some r\<close> is a \<open>return r\<close>
  inside the loop, \<open>None\<close> is the loop running to its end.
\<close>

fun attempt_loop ::
  "string \<Rightarrow> headers \<Rightarrow> string \<Rightarrow> nat list \<Rightarrow> world \<Rightarrow> response option option \<times> world"
where
  "attempt_loop url hs domain [] w = (None, w)"
| "attempt_loop url hs domain (attempt # rest) w =
     (case session_get w url hs of
        (Returned resp, w1) \<Rightarrow>
          if status_code resp = 304 then (Some (Some resp), w1)
          else if 400 \<le> status_code resp \<and> status_code resp < 500 \<and> status_code resp \<noteq> 429
          then (Some None, w1)
          else if raises_for_status resp
          then attempt_loop url hs domain rest (backoff_wait attempt w1)
          else (Some (Some resp), w1)
      | (RaisedConnectionError e, w1) \<Rightarrow>
          if is_non_retryable_error e
          then (Some None, w1\<lparr>failed_domains := insert domain (failed_domains w1)\<rparr>)
          else attempt_loop url hs domain rest (backoff_wait attempt w1)
      | (RaisedRequestException e, w1) \<Rightarrow>
          attempt_loop url hs domain rest (backoff_wait attempt w1))"

definition fetch_with_backoff :: "world \<Rightarrow> string \<Rightarrow> headers \<Rightarrow> response option \<times> world" where
  "fetch_with_backoff w url hs =
     (let domain = get_domain url
      in if domain \<in> failed_domains w then (None, w)
         else (case attempt_loop url hs domain [0..<MAX_RETRIES] w of
                 (Some r, w1) \<Rightarrow> (r, w1)
               | (None, w1) \<Rightarrow> (None, w1\<lparr>failed_domains := insert domain (failed_domains w1)\<rparr>)))"

section \<open>fetcher.py: the store\<close>

text \<open>
  The two tables of \<open>SCHEMA_SQL\<close>, each a list of rows in rowid order. A nullable column
  is an \<open>option\<close>.
\<close>

record source_row =
  src_id :: nat
  src_name :: string
  source_url :: string
  feed_url :: "string option"
  src_type :: string
  active :: int
  last_fetch_at :: "string option"
  etag :: "string option"
  last_modified :: "string option"

record item_row =
  item_id :: nat
  source_id :: nat
  item_title :: string
  item_url :: string
  guid :: "string option"
  published_at :: "string option"
  fetched_at :: string
  content_text :: "string option"
  url_hash :: string
  status :: string
  summary_json :: "string option"
  model_used :: "string option"

record db =
  sources :: "source_row list"
  items :: "item_row list"

datatype error =
    KeyError string
  | TypeError
  | IntegrityError
  | ValueError string
  | RuntimeError string
  | OtherError string

definition init_db :: db where
  \<comment> \<open>the store after \<open>SCHEMA_SQL\<close> has run on a file that did not exist\<close>
  "init_db = \<lparr>sources = [], items = []\<rparr>"

definition next_rowid :: "nat list \<Rightarrow> nat" where
  \<comment> \<open>the value SQLite gives an \<open>INTEGER PRIMARY KEY\<close> that the insert leaves out\<close>
  "next_rowid ids = (if ids = [] then 1 else Suc (Max (set ids)))"

definition item_exists :: "db \<Rightarrow> string \<Rightarrow> bool" where
  \<comment> \<open>\<open>SELECT 1 FROM items WHERE url_hash=?\<close> finds a row\<close>
  "item_exists d h = list_ex (\<lambda>i. url_hash i = h) (items d)"

definition insert_item :: "db \<Rightarrow> item_row \<Rightarrow> error + db" where
  \<comment> \<open>\<open>INSERT INTO items\<close>: refused by the \<open>UNIQUE\<close> constraint on \<open>url_hash\<close> when the
      hash is there already; the row gets the next rowid\<close>
  "insert_item d r =
     (if item_exists d (url_hash r) then Inl IntegrityError
      else Inr (d\<lparr>items := items d @ [r\<lparr>item_id := next_rowid (map item_id (items d))\<rparr>]\<rparr>))"

section \<open>fetcher.py: what the libraries give\<close>

text \<open>A feed entry, as \<open>getattr(entry, name, None)\<close> reads it.\<close>

record entry =
  entry_link :: "string option"
  entry_id :: "string option"
  entry_title :: "string option"
  entry_content :: "string option list option"
  entry_summary :: "string option"
  published_parsed :: "int list option"
  updated_parsed :: "int list option"

text \<open>
  The library calls of the fetcher that the model takes as they are: the SHA-256 hex
  digest of a string, the entries \<open>feedparser.parse\<close> finds in a text, the text
  BeautifulSoup extracts from a page (\<open>extract_text_from_html\<close> up to its \<open>get_text\<close>), the
  \<open>type\<close> and \<open>href\<close> of each \<open>link rel="alternate"\<close> of a page, the ISO form of a time
  tuple (\<open>None\<close> where \<open>datetime\<close> raises), the reading of the clock after the \<open>n\<close>-th
  request of the run, and \<open>MAX_CHARS_PER_ITEM\<close>, which the environment may set.
\<close>

record fetch_lib =
  sha256_hex :: "string \<Rightarrow> string"
  feed_entries :: "string \<Rightarrow> entry list"
  soup_text :: "string \<Rightarrow> string"
  soup_feed_links :: "string \<Rightarrow> (string option \<times> string option) list"
  utc_isoformat :: "int list \<Rightarrow> string option"
  clock :: "nat \<Rightarrow> string"
  MAX_CHARS_PER_ITEM :: int

section \<open>fetcher.py: content extraction\<close>

abbreviation NL :: char where
  "NL \<equiv> CHR 0x0A"

definition py_prefix :: "int \<Rightarrow> string \<Rightarrow> string" where
  \<comment> \<open>the slice \<open>s[:n]\<close>\<close>
  "py_prefix n s = (if 0 \<le> n then take (nat n) s else take (nat (int (length s) + n)) s)"

function collapse_newlines :: "string \<Rightarrow> string" where
  \<comment> \<open>\<open>re.sub(r"\n{3,}", "\n\n", text)\<close>\<close>
  "collapse_newlines [] = []"
| "collapse_newlines (c # cs) =
     (if c = NL
      then (let run = takeWhile (\<lambda>x. x = NL) (c # cs)
            in (if 3 \<le> length run then [NL, NL] else run)
               @ collapse_newlines (dropWhile (\<lambda>x. x = NL) cs))
      else c # collapse_newlines cs)"
  by pat_completeness auto
termination
  by (relation "measure length") (auto simp: length_dropWhile_le less_Suc_eq_le)

definition extract_text_from_html :: "fetch_lib \<Rightarrow> string \<Rightarrow> string" where
  "extract_text_from_html L html =
     py_prefix (MAX_CHARS_PER_ITEM L) (collapse_newlines (soup_text L html))"

definition get_entry_content :: "fetch_lib \<Rightarrow> entry \<Rightarrow> string" where
  "get_entry_content L e =
     (let from_summary =
            (case entry_summary e of
               Some s \<Rightarrow> if s \<noteq> [] then extract_text_from_html L s else []
             | None \<Rightarrow> [])
      in case entry_content e of
           Some (c0 # cs) \<Rightarrow>
             (let html = (case c0 of Some v \<Rightarrow> v | None \<Rightarrow> [])
              in if html \<noteq> [] then extract_text_from_html L html else from_summary)
         | _ \<Rightarrow> from_summary)"

definition fetch_article_text :: "fetch_lib \<Rightarrow> world \<Rightarrow> string \<Rightarrow> string \<times> world" where
  "fetch_article_text L w url =
     (case fetch_with_backoff w url [] of
        (None, w1) \<Rightarrow> ([], w1)
      | (Some resp, w1) \<Rightarrow> (extract_text_from_html L (resp_text resp), w1))"

definition url_hash_of :: "fetch_lib \<Rightarrow> string \<Rightarrow> string" where
  \<comment> \<open>\<open>url_hash\<close>\<close>
  "url_hash_of L url = sha256_hex L url"

definition parse_entry_date :: "fetch_lib \<Rightarrow> entry \<Rightarrow> string option" where
  "parse_entry_date L e =
     (let try = (\<lambda>tp. case tp of
                    Some t \<Rightarrow> if t \<noteq> [] then utc_isoformat L (take 6 t) else None
                  | None \<Rightarrow> None)
      in case try (published_parsed e) of
           Some s \<Rightarrow> Some s
         | None \<Rightarrow> try (updated_parsed e))"

section \<open>fetcher.py: feed discovery\<close>

text \<open>
  A source descriptor of \<open>feeds.yaml\<close>: a dictionary from keys to strings. A key whose
  value is \<open>null\<close> reads as a missing key does under \<open>get\<close>.
\<close>

type_synonym source = "string \<rightharpoonup> string"

definition is_word_char :: "char \<Rightarrow> bool" where
  \<comment> \<open>what \<open>\w\<close> matches in a \<open>str\<close> pattern, for the code points below 256\<close>
  "is_word_char c =
     (let n = (of_char c :: nat)
      in (48 \<le> n \<and> n \<le> 57) \<or> (65 \<le> n \<and> n \<le> 90) \<or> n = 95 \<or> (97 \<le> n \<and> n \<le> 122)
         \<or> n \<in> {170, 178, 179, 181, 185, 186, 188, 189, 190}
         \<or> (192 \<le> n \<and> n \<le> 214) \<or> (216 \<le> n \<and> n \<le> 246) \<or> (248 \<le> n \<and> n \<le> 255))"

definition is_host_char :: "char \<Rightarrow> bool" where
  \<comment> \<open>the class \<open>[\w.-]\<close>\<close>
  "is_host_char c = (is_word_char c \<or> c = CHR ''.'' \<or> c = CHR ''-'')"

definition after_http :: "string \<Rightarrow> string option" where
  \<comment> \<open>what follows a match of \<open>https?://\<close> at the start\<close>
  "after_http u =
     (if startswith u ''https://'' then Some (drop 8 u)
      else if startswith u ''http://'' then Some (drop 7 u)
      else None)"

definition medium_profile :: "string \<Rightarrow> string option" where
  \<comment> \<open>group 1 of \<open>re.match(r"https?://medium\.com/(@[\w.-]+)", url)\<close>\<close>
  "medium_profile u =
     (case after_http u of
        None \<Rightarrow> None
      | Some r \<Rightarrow>
          if startswith r ''medium.com/@''
          then (let name = takeWhile is_host_char (drop 12 r)
                in if name \<noteq> [] then Some (CHR ''@'' # name) else None)
          else None)"

fun dot_then_word :: "string \<Rightarrow> bool" where
  \<comment> \<open>a dot with a word character after it\<close>
  "dot_then_word (a # b # cs) = ((a = CHR ''.'' \<and> is_word_char b) \<or> dot_then_word (b # cs))"
| "dot_then_word _ = False"

definition medium_publication :: "string \<Rightarrow> string option" where
  \<comment> \<open>\<open>match.group(0).split('//')[1].split('.')[0]\<close> for
      \<open>re.match(r"https?://([\w.-]+\.[\w]+)", url)\<close>: the match needs a run of host
      characters with a dot, not its first character, before a word character; the
      result is the run up to its first dot\<close>
  "medium_publication u =
     (case after_http u of
        None \<Rightarrow> None
      | Some r \<Rightarrow>
          (let run = takeWhile is_host_char r
           in if run \<noteq> [] \<and> dot_then_word (tl run)
              then Some (takeWhile (\<lambda>c. c \<noteq> CHR ''.'') run) else None))"

definition header_get :: "headers \<Rightarrow> string \<Rightarrow> string option" where
  \<comment> \<open>\<open>resp.headers.get(name)\<close>: the names compare without case, the last entry wins\<close>
  "header_get hs name = map_of (rev (map (\<lambda>(k, v). (lower k, v)) hs)) (lower name)"

definition probe_paths :: "string list" where
  "probe_paths = [''/feed'', ''/rss'', ''/rss.xml'', ''/atom.xml'', ''/feed.xml'', ''/index.xml'',
                  ''/feed/feed.xml'', ''/feed/atom.xml'', ''/feed/index.xml'']"

fun first_feed_link :: "string \<Rightarrow> (string option \<times> string option) list \<Rightarrow> string option" where
  \<comment> \<open>the loop over the \<open>link rel="alternate"\<close> tags\<close>
  "first_feed_link url [] = None"
| "first_feed_link url ((ty, hr) # rest) =
     (let link_type = lower (case ty of Some t \<Rightarrow> t | None \<Rightarrow> [])
      in if contains ''rss'' link_type \<or> contains ''atom'' link_type
         then (let href = (case hr of Some h \<Rightarrow> h | None \<Rightarrow> [])
               in Some (if startswith href ''/'' then url @ href
                        else if \<not> startswith href ''http'' then url @ ''/'' @ href
                        else href))
         else first_feed_link url rest)"

fun probe_loop :: "fetch_lib \<Rightarrow> string \<Rightarrow> string list \<Rightarrow> world \<Rightarrow> string option \<times> world" where
  \<comment> \<open>the loop over the conventional feed paths\<close>
  "probe_loop L url [] w = (None, w)"
| "probe_loop L url (path # rest) w =
     (let probe_url = url @ path
      in case fetch_with_backoff w probe_url [] of
           (Some probe, w1) \<Rightarrow>
             if status_code probe = 200
             then (let ct = lower (case header_get (resp_headers probe) ''content-type'' of
                                     Some v \<Rightarrow> v | None \<Rightarrow> [])
                   in if list_ex (\<lambda>t. contains t ct) [''xml'', ''rss'', ''atom'']
                      then (Some probe_url, w1)
                      else if feed_entries L (resp_text probe) \<noteq> []
                      then (Some probe_url, w1)
                      else probe_loop L url rest w1)
             else probe_loop L url rest w1
         | (None, w1) \<Rightarrow> probe_loop L url rest w1)"

definition discover_site_feed :: "fetch_lib \<Rightarrow> world \<Rightarrow> string \<Rightarrow> string option \<times> world" where
  \<comment> \<open>\<open>_discover_site_feed\<close>\<close>
  "discover_site_feed L w url =
     (case fetch_with_backoff w url [] of
        (None, w1) \<Rightarrow> (None, w1)
      | (Some resp, w1) \<Rightarrow>
          (case first_feed_link url (soup_feed_links L (resp_text resp)) of
             Some href \<Rightarrow> (Some href, w1)
           | None \<Rightarrow> probe_loop L url probe_paths w1))"

definition discover_feed_url ::
  "fetch_lib \<Rightarrow> world \<Rightarrow> source \<Rightarrow> error + (string option \<times> world)"
where
  "discover_feed_url L w source =
     (let src_type = (case source ''type'' of Some t \<Rightarrow> t | None \<Rightarrow> ''site'')
      in case source ''url'' of
           None \<Rightarrow> Inl (KeyError ''url'')
         | Some u \<Rightarrow>
             (let url = rstrip_chars ''/'' u
              in if truthy (source ''feed_url'') then Inr (source ''feed_url'', w)
                 else if truthy (source ''html_fallback_url'') then Inr (None, w)
                 else if src_type = ''substack'' then Inr (Some (url @ ''/feed''), w)
                 else if src_type = ''medium''
                 then (case medium_profile url of
                         Some p \<Rightarrow> Inr (Some (''https://medium.com/feed/'' @ p), w)
                       | None \<Rightarrow>
                           (case medium_publication url of
                              Some p \<Rightarrow> Inr (Some (''https://medium.com/feed/'' @ p), w)
                            | None \<Rightarrow> Inr (None, w)))
                 else if src_type = ''youtube'' then Inr (None, w)
                 else Inr (discover_site_feed L w url)))"

section \<open>fetcher.py: ingestion\<close>

definition lookup_source :: "db \<Rightarrow> nat \<Rightarrow> source_row option" where
  \<comment> \<open>\<open>SELECT ... FROM sources WHERE id=?\<close>, \<open>fetchone\<close>\<close>
  "lookup_source d sid = find (\<lambda>r. src_id r = sid) (sources d)"

definition update_source :: "db \<Rightarrow> nat \<Rightarrow> (source_row \<Rightarrow> source_row) \<Rightarrow> db" where
  \<comment> \<open>\<open>UPDATE sources SET ... WHERE id=?\<close>\<close>
  "update_source d sid f = d\<lparr>sources := map (\<lambda>r. if src_id r = sid then f r else r) (sources d)\<rparr>"

definition upsert_source :: "db \<Rightarrow> source \<Rightarrow> string option \<Rightarrow> error + (nat \<times> db)" where
  "upsert_source d source furl =
     (let act = (if truthy furl then 1 else 0);
          ty = (case source ''type'' of Some t \<Rightarrow> t | None \<Rightarrow> ''site'')
      in case source ''url'' of
           None \<Rightarrow> Inl (KeyError ''url'')
         | Some u \<Rightarrow>
             (case find (\<lambda>r. source_url r = u) (sources d) of
                Some row \<Rightarrow>
                  (case source ''name'' of
                     None \<Rightarrow> Inl (KeyError ''name'')
                   | Some n \<Rightarrow>
                       Inr (src_id row,
                            update_source d (src_id row)
                              (\<lambda>r. r\<lparr>src_name := n, feed_url := furl, src_type := ty,
                                       active := act\<rparr>)))
              | None \<Rightarrow>
                  (case source ''name'' of
                     None \<Rightarrow> Inl (KeyError ''name'')
                   | Some n \<Rightarrow>
                       (let new_id = next_rowid (map src_id (sources d))
                        in Inr (new_id,
                                d\<lparr>sources := sources d @
                                    [\<lparr>src_id = new_id, src_name = n, source_url = u,
                                      feed_url = furl, src_type = ty, active = act,
                                      last_fetch_at = None, etag = None,
                                      last_modified = None\<rparr>]\<rparr>)))))"

definition entry_url_of :: "entry \<Rightarrow> string option" where
  \<comment> \<open>\<open>getattr(entry, "link", None) or getattr(entry, "id", None)\<close>\<close>
  "entry_url_of e = (if truthy (entry_link e) then entry_link e else entry_id e)"

definition thin_content :: "string \<Rightarrow> bool" where
  \<comment> \<open>\<open>not content or len(content.strip()) < 100\<close>\<close>
  "thin_content content = (content = [] \<or> length (strip content) < 100)"

text \<open>
  One turn of the loop of \<open>fetch_feed\<close> over the entries, on the world, the store and
  \<open>new_count\<close>.
\<close>

definition ingest_entry ::
  "fetch_lib \<Rightarrow> nat \<Rightarrow> string \<Rightarrow> entry \<Rightarrow> world \<times> db \<times> nat \<Rightarrow> error + (world \<times> db \<times> nat)"
where
  "ingest_entry L sid now e st =
     (case st of (w, d, new_count) \<Rightarrow>
        (case entry_url_of e of
           None \<Rightarrow> Inr (w, d, new_count)
         | Some entry_url \<Rightarrow>
             if entry_url = [] then Inr (w, d, new_count)
             else
               (let entry_hash = url_hash_of L entry_url
                in if item_exists d entry_hash then Inr (w, d, new_count)
                   else
                     (let title = (case entry_title e of Some t \<Rightarrow> t | None \<Rightarrow> ''Untitled'');
                          published = parse_entry_date L e;
                          content0 = get_entry_content L e;
                          (content1, w1) = (if thin_content content0
                                            then fetch_article_text L w entry_url
                                            else (content0, w));
                          content = py_prefix (MAX_CHARS_PER_ITEM L) content1
                      in case insert_item d
                           \<lparr>item_id = 0, source_id = sid, item_title = title,
                            item_url = entry_url, guid = entry_id e, published_at = published,
                            fetched_at = now, content_text = Some content,
                            url_hash = entry_hash, status = ''new'', summary_json = None,
                            model_used = None\<rparr> of
                           Inl err \<Rightarrow> Inl err
                         | Inr d1 \<Rightarrow> Inr (w1, d1, Suc new_count)))))"

fun ingest_entries ::
  "fetch_lib \<Rightarrow> nat \<Rightarrow> string \<Rightarrow> entry list \<Rightarrow> world \<times> db \<times> nat \<Rightarrow> error + (world \<times> db \<times> nat)"
where
  "ingest_entries L sid now [] st = Inr st"
| "ingest_entries L sid now (e # es) st =
     (case ingest_entry L sid now e st of
        Inl err \<Rightarrow> Inl err
      | Inr st1 \<Rightarrow> ingest_entries L sid now es st1)"

definition conditional_headers :: "source_row \<Rightarrow> headers" where
  "conditional_headers row =
     (case etag row of
        Some t \<Rightarrow> if t \<noteq> [] then [(''If-None-Match'', t)] else []
      | None \<Rightarrow> [])
     @ (case last_modified row of
          Some t \<Rightarrow> if t \<noteq> [] then [(''If-Modified-Since'', t)] else []
        | None \<Rightarrow> [])"

definition fetch_feed ::
  "fetch_lib \<Rightarrow> world \<Rightarrow> db \<Rightarrow> nat \<Rightarrow> string \<Rightarrow> error + (nat \<times> world \<times> db)"
where
  "fetch_feed L w d sid furl =
     (case lookup_source d sid of
        None \<Rightarrow> Inl TypeError
      | Some row \<Rightarrow>
          (case fetch_with_backoff w furl (conditional_headers row) of
             (None, w1) \<Rightarrow> Inr (0, w1, d)
           | (Some resp, w1) \<Rightarrow>
               if status_code resp = 304 then Inr (0, w1, d)
               else
                 (let new_etag = header_get (resp_headers resp) ''ETag'';
                      new_lm = header_get (resp_headers resp) ''Last-Modified'';
                      now = clock L (gets w1);
                      d1 = update_source d sid
                             (\<lambda>r. r\<lparr>etag := new_etag, last_modified := new_lm,
                                      last_fetch_at := Some now\<rparr>);
                      entries = feed_entries L (resp_text resp)
                  in if entries = [] then Inr (0, w1, d1)
                     else (case ingest_entries L sid now entries (w1, d1, 0) of
                             Inl err \<Rightarrow> Inl err
                           | Inr (w2, d2, new_count) \<Rightarrow> Inr (new_count, w2, d2)))))"

text \<open>
  The loop of \<open>main\<close> over the configured sources. The store it returns is the one last
  committed: an exception ends the process, and what the turn wrote since its last
  commit is lost.
\<close>

fun main_loop ::
  "fetch_lib \<Rightarrow> source list \<Rightarrow> world \<Rightarrow> db \<Rightarrow> nat \<Rightarrow> error option \<times> world \<times> db \<times> nat"
where
  "main_loop L [] w d total_new = (None, w, d, total_new)"
| "main_loop L (source # rest) w d total_new =
     (case source ''name'' of
        None \<Rightarrow> (Some (KeyError ''name''), w, d, total_new)
      | Some n \<Rightarrow>
          (case discover_feed_url L w source of
             Inl err \<Rightarrow> (Some err, w, d, total_new)
           | Inr (found, w1) \<Rightarrow>
               (case (if truthy found then found else None) of
                  None \<Rightarrow>
                    (case upsert_source d source None of
                       Inl err \<Rightarrow> (Some err, w1, d, total_new)
                     | Inr (sid, d1) \<Rightarrow> main_loop L rest w1 d1 total_new)
                | Some furl \<Rightarrow>
                    (case upsert_source d source (Some furl) of
                       Inl err \<Rightarrow> (Some err, w1, d, total_new)
                     | Inr (sid, d1) \<Rightarrow>
                         (case fetch_feed L w1 d1 sid furl of
                            Inl err \<Rightarrow> (Some err, w1, d1, total_new)
                          | Inr (new_count, w2, d2) \<Rightarrow>
                              main_loop L rest (sleep (1 / 5) w2) d2
                                (total_new + new_count))))))"

definition fetcher_main ::
  "fetch_lib \<Rightarrow> source list \<Rightarrow> (nat \<Rightarrow> string \<Rightarrow> headers \<Rightarrow> get_outcome) \<Rightarrow> db
     \<Rightarrow> error option \<times> world \<times> db \<times> nat"
where
  \<comment> \<open>one run of the fetcher process on the sources of \<open>feeds.yaml\<close>, a network and the
      store as the last run left it (\<open>init_db\<close> creates only what is missing)\<close>
  "fetcher_main L srcs n d = main_loop L srcs (fresh_world n) d 0"

section \<open>summarizer.py: configuration and libraries\<close>

definition MAX_INPUT_TOKENS :: nat where
  "MAX_INPUT_TOKENS = 2000"

definition LLM_MAX_RETRIES :: nat where
  \<comment> \<open>\<open>MAX_RETRIES\<close> of summarizer.py\<close>
  "LLM_MAX_RETRIES = 3"

definition LLM_BACKOFF_BASE :: nat where
  \<comment> \<open>\<open>BACKOFF_BASE\<close> of summarizer.py\<close>
  "LLM_BACKOFF_BASE = 2"

definition FIX_JSON_PROMPT :: "string \<Rightarrow> string" where
  \<comment> \<open>\<open>FIX_JSON_PROMPT.format(text=...)\<close>\<close>
  "FIX_JSON_PROMPT txt =
     ''The following text was supposed to be valid JSON but isn'' @ [CHR 0x27]
     @ ''t. Fix it and return ONLY the corrected JSON object. ''
     @ ''Do not add markdown fences or explanation.'' @ [NL, NL]
     @ ''Invalid JSON:'' @ [NL] @ txt"

text \<open>A Python float, whose values the model does not look into.\<close>

typedecl pyfloat

text \<open>What \<open>json.loads\<close> returns; a \<open>dict\<close> is the list of its items.\<close>

datatype json =
    JNull
  | JBool bool
  | JInt int
  | JFloat pyfloat
  | JString string
  | JArray "json list"
  | JObject "(string \<times> json) list"

text \<open>
  The JSON codec of the standard library: \<open>json.loads\<close> (\<open>None\<close> where it raises
  \<open>JSONDecodeError\<close>) and \<open>json.dumps\<close>.
\<close>

record json_lib =
  json_loads :: "string \<Rightarrow> json option"
  json_dumps :: "json \<Rightarrow> string"

text \<open>
  The settings of one run of the summarizer: the environment variables,
  \<open>MAX_NEW_ITEMS_PER_RUN\<close> (which the environment may set) and the text of
  \<open>SUMMARY_SYSTEM_PROMPT\<close>, which the model does not look into.
\<close>

record summ_env =
  environ :: "string \<rightharpoonup> string"
  MAX_NEW_ITEMS_PER_RUN :: int
  SUMMARY_SYSTEM_PROMPT :: string

text \<open>
  What one request to the provider does, read through to the text of the reply: a reply
  (\<open>None\<close> when the provider sends no text), an \<open>OSError\<close> or \<open>ValueError\<close>, or another
  exception, given by the name of its type.
\<close>

datatype llm_outcome =
    Replied "string option"
  | RaisedOSOrValueError string
  | RaisedException string

datatype llm_event = Ask string string | Pause rat

text \<open>
  The state of one run of the summarizer process: the provider (what the \<open>n\<close>-th request
  of the run does, given the system and the user text), the number of requests made,
  and the requests and waits in the order they happened.
\<close>

record llm_world =
  llm :: "nat \<Rightarrow> string \<Rightarrow> string \<Rightarrow> llm_outcome"
  calls :: nat
  llm_trace :: "llm_event list"

definition fresh_llm_world :: "(nat \<Rightarrow> string \<Rightarrow> string \<Rightarrow> llm_outcome) \<Rightarrow> llm_world" where
  "fresh_llm_world f = \<lparr>llm = f, calls = 0, llm_trace = []\<rparr>"

definition pause :: "rat \<Rightarrow> llm_world \<Rightarrow> llm_world" where
  \<comment> \<open>\<open>time.sleep\<close> in the summarizer\<close>
  "pause secs w = w\<lparr>llm_trace := llm_trace w @ [Pause secs]\<rparr>"

definition create_message :: "llm_world \<Rightarrow> string \<Rightarrow> string \<Rightarrow> llm_outcome \<times> llm_world" where
  \<comment> \<open>\<open>client.messages.create\<close> or \<open>client.chat.completions.create\<close>, and the reading of
      the text of the reply\<close>
  "create_message w system user =
     (llm w (calls w) system user,
      w\<lparr>calls := Suc (calls w), llm_trace := llm_trace w @ [Ask system user]\<rparr>)"

section \<open>summarizer.py: the LLM clients\<close>

definition get_llm_client :: "summ_env \<Rightarrow> error + string" where
  \<comment> \<open>the provider's name; the client object carries nothing the model needs\<close>
  "get_llm_client E =
     (if truthy (environ E ''ANTHROPIC_API_KEY'') then Inr ''anthropic''
      else if truthy (environ E ''OPENAI_API_KEY'') then Inr ''openai''
      else Inl (RuntimeError
        ''No LLM API key configured. Set ANTHROPIC_API_KEY or OPENAI_API_KEY.''))"

definition model_name :: "summ_env \<Rightarrow> string \<Rightarrow> string" where
  \<comment> \<open>the model a provider is asked for\<close>
  "model_name E provider =
     (if provider = ''anthropic''
      then (case environ E ''ANTHROPIC_MODEL'' of Some m \<Rightarrow> m | None \<Rightarrow> ''claude-haiku-4-5-20251001'')
      else (case environ E ''OPENAI_MODEL'' of Some m \<Rightarrow> m | None \<Rightarrow> ''gpt-4o-mini''))"

definition retryable_sdk_error :: "string \<Rightarrow> bool" where
  \<comment> \<open>the test of \<open>call_llm\<close> on the name of the exception's type\<close>
  "retryable_sdk_error err_type =
     (contains ''Error'' err_type
      \<and> list_ex (\<lambda>k. contains k err_type) [''API'', ''Rate'', ''Timeout'', ''Connection'', ''Server''])"

definition llm_backoff_wait :: "nat \<Rightarrow> llm_world \<Rightarrow> llm_world" where
  "llm_backoff_wait attempt w =
     (let wait = LLM_BACKOFF_BASE ^ attempt
      in if attempt < LLM_MAX_RETRIES - 1 then pause (of_nat wait) w else w)"

text \<open>
  The loop of \<open>call_llm\<close> over the attempts left: \<open>Some\<close> is a \<open>return\<close> or a \<open>raise\<close>
  inside the loop, \<open>None\<close> is the loop running to its end.
\<close>

fun llm_attempt_loop ::
  "string \<Rightarrow> string \<Rightarrow> nat list \<Rightarrow> llm_world \<Rightarrow> (error + string option) option \<times> llm_world"
where
  "llm_attempt_loop system user [] w = (None, w)"
| "llm_attempt_loop system user (attempt # rest) w =
     (case create_message w system user of
        (Replied txt, w1) \<Rightarrow> (Some (Inr txt), w1)
      | (RaisedOSOrValueError name, w1) \<Rightarrow>
          llm_attempt_loop system user rest (llm_backoff_wait attempt w1)
      | (RaisedException err_type, w1) \<Rightarrow>
          if retryable_sdk_error err_type
          then llm_attempt_loop system user rest (llm_backoff_wait attempt w1)
          else (Some (Inl (OtherError err_type)), w1))"

definition call_llm :: "llm_world \<Rightarrow> string \<Rightarrow> string \<Rightarrow> (error + string option) \<times> llm_world" where
  \<comment> \<open>the provider and the client choose the API and the model only, which the outcome of
      a request does not depend on in the model\<close>
  "call_llm w system user =
     (case llm_attempt_loop system user [0..<LLM_MAX_RETRIES] w of
        (Some r, w1) \<Rightarrow> (r, w1)
      | (None, w1) \<Rightarrow> (Inl (RuntimeError ''All 3 LLM attempts failed''), w1))"

section \<open>summarizer.py: JSON validation\<close>

definition REQUIRED_FIELDS :: "string list" where
  "REQUIRED_FIELDS = [''eli5'', ''eli16'', ''why_this_matters'', ''what_changed'',
                      ''key_quotes'', ''confidence_unknowns'']"

definition try_parse :: "json_lib \<Rightarrow> string \<Rightarrow> (string \<times> json) list option" where
  \<comment> \<open>\<open>_try_parse\<close>\<close>
  "try_parse J txt =
     (case json_loads J txt of
        None \<Rightarrow> None
      | Some (JObject kvs) \<Rightarrow>
          if set REQUIRED_FIELDS \<subseteq> set (map fst kvs) then Some kvs else None
      | Some _ \<Rightarrow> None)"

fun split_on :: "char \<Rightarrow> string \<Rightarrow> string list" where
  \<comment> \<open>\<open>s.split(c)\<close> for a separator of one character\<close>
  "split_on c [] = [[]]"
| "split_on c (x # xs) =
     (if x = c then [] # split_on c xs
      else (case split_on c xs of l # ls \<Rightarrow> (x # l) # ls | [] \<Rightarrow> [[x]]))"

fun join_with :: "string \<Rightarrow> string list \<Rightarrow> string" where
  \<comment> \<open>\<open>sep.join(parts)\<close>\<close>
  "join_with sep [] = []"
| "join_with sep [l] = l"
| "join_with sep (l # ls) = l @ sep @ join_with sep ls"

definition strip_fences :: "string \<Rightarrow> string" where
  \<comment> \<open>the first step of \<open>parse_summary_json\<close>\<close>
  "strip_fences txt0 =
     (let txt = strip txt0
      in if startswith txt ''```''
         then strip (join_with [NL]
                (filter (\<lambda>l. \<not> startswith (strip l) ''```'') (split_on NL txt)))
         else txt)"

definition repair_suffixes :: "string list" where
  "repair_suffixes = [[CHR 0x22, CHR ''}'', NL, CHR ''}''], [CHR 0x22, NL, CHR ''}''],
                      [CHR 0x22, CHR '']'', NL, CHR ''}''], [CHR '']'', NL, CHR ''}''],
                      [NL, CHR ''}''], ''}'']"

fun try_suffixes :: "json_lib \<Rightarrow> string \<Rightarrow> string list \<Rightarrow> (string \<times> json) list option" where
  \<comment> \<open>the loop over the repair suffixes\<close>
  "try_suffixes J txt [] = None"
| "try_suffixes J txt (suffix # rest) =
     (case try_parse J (txt @ suffix) of
        Some d \<Rightarrow> if d \<noteq> [] then Some d else try_suffixes J txt rest
      | None \<Rightarrow> try_suffixes J txt rest)"

definition parse_summary_json :: "json_lib \<Rightarrow> string \<Rightarrow> (string \<times> json) list option" where
  "parse_summary_json J txt0 =
     (let txt = strip_fences txt0
      in case try_parse J txt of
           Some d \<Rightarrow> if d \<noteq> [] then Some d else try_suffixes J txt repair_suffixes
         | None \<Rightarrow> try_suffixes J txt repair_suffixes)"

section \<open>summarizer.py: the pipeline\<close>

definition truncate_for_input :: "string \<Rightarrow> string" where
  "truncate_for_input txt =
     (let max_chars = MAX_INPUT_TOKENS * 4
      in if max_chars < length txt then take max_chars txt @ [NL] @ ''[truncated]'' else txt)"

definition user_prompt :: "string \<Rightarrow> string \<Rightarrow> string" where
  \<comment> \<open>the prompt \<open>summarize_item\<close> builds from the title and the truncated content\<close>
  "user_prompt title content =
     ''Title: '' @ title @ [NL, NL] @ ''Content:'' @ [NL] @ truncate_for_input content"

definition summarize_item ::
  "json_lib \<Rightarrow> summ_env \<Rightarrow> string \<Rightarrow> llm_world \<Rightarrow> string \<Rightarrow> string
     \<Rightarrow> (error + ((string \<times> json) list \<times> string)) \<times> llm_world"
where
  "summarize_item J E provider w title content =
     (let model = model_name E provider
      in case call_llm w (SUMMARY_SYSTEM_PROMPT E) (user_prompt title content) of
           (Inl err, w1) \<Rightarrow> (Inl err, w1)
         | (Inr None, w1) \<Rightarrow> (Inl (OtherError ''AttributeError''), w1)
         | (Inr (Some response), w1) \<Rightarrow>
             (case parse_summary_json J response of
                Some summary \<Rightarrow> (Inr (summary, model), w1)
              | None \<Rightarrow>
                  (case call_llm w1 ''Fix this JSON.'' (FIX_JSON_PROMPT response) of
                     (Inl err, w2) \<Rightarrow> (Inl err, w2)
                   | (Inr None, w2) \<Rightarrow> (Inl (OtherError ''AttributeError''), w2)
                   | (Inr (Some fixed_response), w2) \<Rightarrow>
                       (case parse_summary_json J fixed_response of
                          Some summary \<Rightarrow> (Inr (summary, model), w2)
                        | None \<Rightarrow>
                            (Inl (ValueError ''Could not get valid JSON after retry''), w2)))))"

fun str_less :: "string \<Rightarrow> string \<Rightarrow> bool" where
  \<comment> \<open>\<open><\<close> on two \<open>TEXT\<close> values in SQLite: byte by byte\<close>
  "str_less [] [] = False"
| "str_less [] (y # ys) = True"
| "str_less (x # xs) [] = False"
| "str_less (x # xs) (y # ys) =
     ((of_char x :: nat) < of_char y \<or> (x = y \<and> str_less xs ys))"

definition CUTOFF :: string where
  "CUTOFF = ''2025-10-01''"

definition skip_old_items :: "db \<Rightarrow> db" where
  \<comment> \<open>\<open>UPDATE items SET status = 'skipped' WHERE status = 'new' AND published_at < '2025-10-01'\<close>\<close>
  "skip_old_items d =
     d\<lparr>items := map (\<lambda>i. if status i = ''new''
                               \<and> (case published_at i of Some p \<Rightarrow> str_less p CUTOFF | None \<Rightarrow> False)
                            then i\<lparr>status := ''skipped''\<rparr> else i) (items d)\<rparr>"

definition published_le :: "string option \<Rightarrow> string option \<Rightarrow> bool" where
  \<comment> \<open>the order of \<open>ORDER BY published_at\<close>: \<open>NULL\<close> comes before every text\<close>
  "published_le a b =
     (case a of None \<Rightarrow> True
      | Some x \<Rightarrow> (case b of None \<Rightarrow> False | Some y \<Rightarrow> \<not> str_less y x))"

fun insert_desc :: "item_row \<Rightarrow> item_row list \<Rightarrow> item_row list" where
  "insert_desc i [] = [i]"
| "insert_desc i (j # js) =
     (if \<not> published_le (published_at j) (published_at i) then j # insert_desc i js
      else i # j # js)"

definition order_by_published_desc :: "item_row list \<Rightarrow> item_row list" where
  \<comment> \<open>\<open>ORDER BY published_at DESC\<close>; rows with one date stay in rowid order, where SQLite
      promises no order\<close>
  "order_by_published_desc rows = foldr insert_desc rows []"

definition sql_limit :: "int \<Rightarrow> 'a list \<Rightarrow> 'a list" where
  \<comment> \<open>\<open>LIMIT ?\<close>: a negative limit is no limit\<close>
  "sql_limit n rows = (if n < 0 then rows else take (nat n) rows)"

definition select_new_items :: "summ_env \<Rightarrow> db \<Rightarrow> (nat \<times> string \<times> string option) list" where
  \<comment> \<open>the \<open>SELECT id, title, content_text\<close> of \<open>main\<close>\<close>
  "select_new_items E d =
     map (\<lambda>i. (item_id i, item_title i, content_text i))
       (sql_limit (MAX_NEW_ITEMS_PER_RUN E)
          (order_by_published_desc
             (filter (\<lambda>i. status i = ''new''
                          \<and> (case published_at i of Some p \<Rightarrow> \<not> str_less p CUTOFF | None \<Rightarrow> True))
                (items d))))"

definition update_item :: "db \<Rightarrow> nat \<Rightarrow> (item_row \<Rightarrow> item_row) \<Rightarrow> db" where
  \<comment> \<open>\<open>UPDATE items SET ... WHERE id=?\<close>\<close>
  "update_item d iid f = d\<lparr>items := map (\<lambda>i. if item_id i = iid then f i else i) (items d)\<rparr>"

text \<open>
  One turn of the loop of \<open>main\<close> over the selected rows, on the world, the store,
  \<open>success_count\<close> and \<open>error_count\<close>. Each turn commits what it writes.
\<close>

definition summarize_row ::
  "json_lib \<Rightarrow> summ_env \<Rightarrow> string \<Rightarrow> nat \<times> string \<times> string option
     \<Rightarrow> llm_world \<times> db \<times> nat \<times> nat \<Rightarrow> llm_world \<times> db \<times> nat \<times> nat"
where
  "summarize_row J E provider row st =
     (case (row, st) of ((iid, title, ctext), (w, d, success_count, error_count)) \<Rightarrow>
        (let content = (case ctext of Some c \<Rightarrow> c | None \<Rightarrow> [])
         in if strip content = []
            then (w, update_item d iid (\<lambda>i. i\<lparr>status := ''skipped''\<rparr>), success_count, error_count)
            else
              (case summarize_item J E provider w title content of
                 (Inr (summary, model_used_now), w1) \<Rightarrow>
                   (pause (1 / 2) w1,
                    update_item d iid
                      (\<lambda>i. i\<lparr>summary_json := Some (json_dumps J (JObject summary)),
                               model_used := Some model_used_now, status := ''summarized''\<rparr>),
                    Suc success_count, error_count)
               | (Inl err, w1) \<Rightarrow> (pause (1 / 2) w1, d, success_count, Suc error_count))))"

fun summarize_rows ::
  "json_lib \<Rightarrow> summ_env \<Rightarrow> string \<Rightarrow> (nat \<times> string \<times> string option) list
     \<Rightarrow> llm_world \<times> db \<times> nat \<times> nat \<Rightarrow> llm_world \<times> db \<times> nat \<times> nat"
where
  "summarize_rows J E provider [] st = st"
| "summarize_rows J E provider (row # rows) st =
     summarize_rows J E provider rows (summarize_row J E provider row st)"

definition summarizer_main ::
  "json_lib \<Rightarrow> summ_env \<Rightarrow> (nat \<Rightarrow> string \<Rightarrow> string \<Rightarrow> llm_outcome) \<Rightarrow> db
     \<Rightarrow> error option \<times> llm_world \<times> db \<times> nat \<times> nat"
where
  \<comment> \<open>one run of the summarizer process on a store that exists\<close>
  "summarizer_main J E f d =
     (let w = fresh_llm_world f;
          d1 = skip_old_items d;
          rows = select_new_items E d1
      in if rows = [] then (None, w, d1, 0, 0)
         else (case get_llm_client E of
                 Inl err \<Rightarrow> (Some err, w, d1, 0, 0)
               | Inr provider \<Rightarrow>
                   (case summarize_rows J E provider rows (w, d1, 0, 0) of
                      (w1, d2, success_count, error_count) \<Rightarrow>
                        (None, w1, d2, success_count, error_count))))"

section \<open>The stores the two stages can leave\<close>

text \<open>
  The stores that runs of the two stages, in any order and number, on any settings,
  network and provider, can leave behind, from a store that did not exist. The JSON
  codec is the same in every run.
\<close>

inductive reachable :: "json_lib \<Rightarrow> db \<Rightarrow> bool" for J :: json_lib where
  start: "reachable J init_db"
| fetched: "reachable J d \<Longrightarrow> fetcher_main L srcs n d = (err, w, d', cnt) \<Longrightarrow> reachable J d'"
| summarized: "reachable J d \<Longrightarrow> summarizer_main J E f d = (err, w, d', a, b) \<Longrightarrow> reachable J d'"

section \<open>Failure classes of the fetch client\<close>

text \<open>
  The failures the retry policy is for: a 5xx (or 429) response, a connection error that
  is not classified as permanent, and any other request exception such as a timeout.
\<close>

definition retryable_failure :: "get_outcome \<Rightarrow> bool" where
  "retryable_failure out =
     (case out of
        Returned r \<Rightarrow> status_code r = 429 \<or> (500 \<le> status_code r \<and> status_code r < 600)
      | RaisedConnectionError e \<Rightarrow> \<not> is_non_retryable_error e
      | RaisedRequestException e \<Rightarrow> True)"

definition definitive_4xx :: "response \<Rightarrow> bool" where
  "definitive_4xx r = (400 \<le> status_code r \<and> status_code r < 500 \<and> status_code r \<noteq> 429)"


section \<open>Example runs\<close>

definition timeout_net :: "nat \<Rightarrow> string \<Rightarrow> headers \<Rightarrow> get_outcome" where
  "timeout_net n url hs = RaisedRequestException (Exc ''ReadTimeout'' None)"

definition not_found_net :: "nat \<Rightarrow> string \<Rightarrow> headers \<Rightarrow> get_outcome" where
  "not_found_net n url hs = Returned \<lparr>status_code = 404, resp_text = [], resp_headers = []\<rparr>"



text \<open>
  Stand-ins for the libraries in the example runs: the feed text \<open>FEED\<close> holds two
  entries, every other text none; a page's text is the page; the hash is the identity.
\<close>

definition long_text :: string where
  "long_text = replicate 120 CHR ''x''"

definition entry_a :: entry where
  "entry_a = \<lparr>entry_link = Some ''http://example.com/a'', entry_id = Some ''a'',
              entry_title = Some ''A'', entry_content = Some [Some long_text],
              entry_summary = None, published_parsed = None, updated_parsed = None\<rparr>"

definition entry_b :: entry where
  "entry_b = \<lparr>entry_link = Some ''http://example.com/b'', entry_id = Some ''b'',
              entry_title = Some ''B'', entry_content = None,
              entry_summary = Some ''short'', published_parsed = None, updated_parsed = None\<rparr>"

definition example_lib :: fetch_lib where
  "example_lib =
     \<lparr>sha256_hex = (\<lambda>s. s),
      feed_entries = (\<lambda>t. if t = ''FEED'' then [entry_a, entry_b] else []),
      soup_text = (\<lambda>t. t),
      soup_feed_links = (\<lambda>t. []),
      utc_isoformat = (\<lambda>t. None),
      clock = (\<lambda>n. ''2025-11-01T00:00:00+00:00''),
      MAX_CHARS_PER_ITEM = 8000\<rparr>"

definition example_source :: source where
  "example_source =
     [''name'' \<mapsto> ''Example'', ''url'' \<mapsto> ''http://example.com/'',
      ''feed_url'' \<mapsto> ''http://example.com/rss'',
      ''html_fallback_url'' \<mapsto> ''http://example.com/news'']"

definition fallback_source :: source where
  "fallback_source =
     [''name'' \<mapsto> ''Example'', ''url'' \<mapsto> ''http://example.com/'',
      ''html_fallback_url'' \<mapsto> ''http://example.com/news'']"

definition substack_source :: source where
  "substack_source =
     [''name'' \<mapsto> ''Example'', ''url'' \<mapsto> ''http://example.substack.com/'',
      ''type'' \<mapsto> ''substack'']"

definition site_source :: source where
  "site_source = [''name'' \<mapsto> ''Example'', ''url'' \<mapsto> ''http://example.com/'']"

text \<open>An entry the store knows: it has no URL, or the hash of its URL is in the store.\<close>

definition known_entry :: "fetch_lib \<Rightarrow> db \<Rightarrow> entry \<Rightarrow> bool" where
  "known_entry L d e =
     (case entry_url_of e of
        None \<Rightarrow> True
      | Some u \<Rightarrow> u = [] \<or> item_exists d (url_hash_of L u))"

definition feed_response :: response where
  "feed_response = \<lparr>status_code = 200, resp_text = ''FEED'', resp_headers = []\<rparr>"

definition feed_net :: "nat \<Rightarrow> string \<Rightarrow> headers \<Rightarrow> get_outcome" where
  \<comment> \<open>a network that serves the feed at its URL and answers 404 elsewhere\<close>
  "feed_net n url hs =
     (if url = ''http://example.com/rss'' then Returned feed_response
      else Returned \<lparr>status_code = 404, resp_text = [], resp_headers = []\<rparr>)"

definition example_row :: source_row where
  "example_row = \<lparr>src_id = 1, src_name = ''Example'', source_url = ''http://example.com/'',
                  feed_url = Some ''http://example.com/rss'', src_type = ''site'', active = 1,
                  last_fetch_at = None, etag = None, last_modified = None\<rparr>"

definition example_db :: db where
  \<comment> \<open>the store after \<open>upsert_source\<close> has recorded the example source\<close>
  "example_db = \<lparr>sources = [example_row], items = []\<rparr>"

text \<open>
  A store that a later one extends by ingestion: the later one has the items of the
  first, in their order and as they were, and after them items of status \<open>new\<close> with no
  summary, whose hashes are new and differ from each other.
\<close>

definition extends_with_new :: "db \<Rightarrow> db \<Rightarrow> bool" where
  "extends_with_new d d' =
     (\<exists>new. items d' = items d @ new
          \<and> list_all (\<lambda>r. status r = ''new'' \<and> summary_json r = None) new
          \<and> distinct (map url_hash new)
          \<and> list_all (\<lambda>r. \<not> item_exists d (url_hash r)) new)"

text \<open>
  A store that a later one rewrites by summarization: the later one has the same items,
  each with its id, URL, hash and content, and a status that is the old one, or
  \<open>skipped\<close> or \<open>summarized\<close> in place of \<open>new\<close>.
\<close>

definition same_item :: "item_row \<Rightarrow> item_row \<Rightarrow> bool" where
  "same_item i i' =
     (item_id i' = item_id i \<and> item_url i' = item_url i \<and> url_hash i' = url_hash i
      \<and> content_text i' = content_text i)"

definition example_store :: db where
  \<comment> \<open>the store after one run of the fetcher on the example source\<close>
  "example_store = fst (snd (snd (fetcher_main example_lib [example_source] feed_net init_db)))"

definition quoted :: "string \<Rightarrow> string" where
  "quoted s = [CHR 0x22] @ s @ [CHR 0x22]"

definition summary_object :: "(string \<times> json) list" where
  "summary_object =
     [(''eli5'', JString ''a''), (''eli16'', JString ''b''), (''why_this_matters'', JString ''c''),
      (''what_changed'', JString ''d''), (''key_quotes'', JArray []),
      (''confidence_unknowns'', JString ''e'')]"

definition summary_text :: string where
  \<comment> \<open>what \<open>json.dumps\<close> gives for \<open>summary_object\<close>\<close>
  "summary_text =
     ''{'' @ quoted ''eli5'' @ '': '' @ quoted ''a'' @ '', ''
     @ quoted ''eli16'' @ '': '' @ quoted ''b'' @ '', ''
     @ quoted ''why_this_matters'' @ '': '' @ quoted ''c'' @ '', ''
     @ quoted ''what_changed'' @ '': '' @ quoted ''d'' @ '', ''
     @ quoted ''key_quotes'' @ '': [], ''
     @ quoted ''confidence_unknowns'' @ '': '' @ quoted ''e'' @ ''}''"

text \<open>
  A stand-in for the JSON codec in the example runs: it reads \<open>summary_text\<close> as
  \<open>summary_object\<close> and no other text, and writes \<open>summary_object\<close> as \<open>summary_text\<close>.
\<close>

definition example_json :: json_lib where
  "example_json =
     \<lparr>json_loads = (\<lambda>t. if t = summary_text then Some (JObject summary_object) else None),
      json_dumps = (\<lambda>v. if v = JObject summary_object then summary_text else ''null'')\<rparr>"

text \<open>
  The read contract of the renderer: \<open>summary_json\<close> is there and parses to an object with
  the six required fields.
\<close>

definition valid_summary :: "json_lib \<Rightarrow> item_row \<Rightarrow> bool" where
  "valid_summary J i =
     (case summary_json i of
        None \<Rightarrow> False
      | Some t \<Rightarrow>
          (case json_loads J t of
             Some (JObject kvs) \<Rightarrow> set REQUIRED_FIELDS \<subseteq> set (map fst kvs)
           | _ \<Rightarrow> False))"

text \<open>
  The law of the JSON codec the stored summaries rest on: what \<open>json.loads\<close> has
  returned, \<open>json.loads\<close> returns again from its \<open>json.dumps\<close>.
\<close>

definition loads_inverts_dumps :: "json_lib \<Rightarrow> bool" where
  "loads_inverts_dumps J =
     (\<forall>t v. json_loads J t = Some v \<longrightarrow> json_loads J (json_dumps J v) = Some v)"


text \<open>
  A selected row that goes to the provider: a row of that id whose content is not empty
  after trimming.
\<close>

definition nonblank_row :: "(nat \<times> string \<times> string option) list \<Rightarrow> nat \<Rightarrow> bool" where
  "nonblank_row rows iid =
     list_ex (\<lambda>(j, title, ctext). j = iid \<and> strip (case ctext of Some c \<Rightarrow> c | None \<Rightarrow> []) \<noteq> [])
       rows"

text \<open>
  An item before and after the loop over the rows: it is the same item, and it is
  \<open>summarized\<close> afterwards only if it was before or a row of its id had content.
\<close>

definition summarized_from ::
  "(nat \<times> string \<times> string option) list \<Rightarrow> item_row \<Rightarrow> item_row \<Rightarrow> bool"
where
  "summarized_from rows i i' =
     (same_item i i'
      \<and> (status i' = ''summarized'' \<longrightarrow> status i = ''summarized'' \<or> nonblank_row rows (item_id i)))"

definition example_env :: summ_env where
  "example_env = \<lparr>environ = [''ANTHROPIC_API_KEY'' \<mapsto> ''key''], MAX_NEW_ITEMS_PER_RUN = 25,
                  SUMMARY_SYSTEM_PROMPT = ''SYSTEM''\<rparr>"


definition good_llm :: "nat \<Rightarrow> string \<Rightarrow> string \<Rightarrow> llm_outcome" where
  \<comment> \<open>a provider whose every reply is the example summary\<close>
  "good_llm n system user = Replied (Some summary_text)"

definition stored_item :: "nat \<Rightarrow> string \<Rightarrow> string \<Rightarrow> item_row" where
  \<comment> \<open>an item as the fetcher stores it, given its id, URL and content\<close>
  "stored_item iid u c =
     \<lparr>item_id = iid, source_id = 1, item_title = ''T'', item_url = u, guid = None,
      published_at = None, fetched_at = ''2025-11-01T00:00:00+00:00'', content_text = Some c,
      url_hash = u, status = ''new'', summary_json = None, model_used = None\<rparr>"

definition blank_db :: db where
  \<comment> \<open>a store with one item of blank content and one of real content\<close>
  "blank_db = \<lparr>sources = [example_row],
                items = [stored_item 1 ''http://example.com/a'' ''   '',
                         stored_item 2 ''http://example.com/b'' ''text'']\<rparr>"

definition fetched_item :: "nat \<Rightarrow> string \<Rightarrow> string \<Rightarrow> string \<Rightarrow> string \<Rightarrow> item_row" where
  \<comment> \<open>an item of the example feed as the fetcher stores it, given its id, title, URL,
      guid and content\<close>
  "fetched_item iid t u g c =
     \<lparr>item_id = iid, source_id = 1, item_title = t, item_url = u, guid = Some g,
      published_at = None, fetched_at = ''2025-11-01T00:00:00+00:00'', content_text = Some c,
      url_hash = u, status = ''new'', summary_json = None, model_used = None\<rparr>"

definition summarized_store :: db where
  \<comment> \<open>the store after one run of the summarizer on \<open>example_store\<close>\<close>
  "summarized_store =
     fst (snd (snd (summarizer_main example_json example_env good_llm example_store)))"

section \<open>The retry loop of the fetch client\<close>

lemma range_MAX_RETRIES: "[0..<MAX_RETRIES] = [0, 1, 2]"
  by (simp add: MAX_RETRIES_def upt_rec)

lemma retry_step:
  assumes "retryable_failure (net w (gets w) url hs)"
  shows "attempt_loop url hs d (a # as) w =
         attempt_loop url hs d as
           (backoff_wait a (w\<lparr>gets := Suc (gets w), trace := trace w @ [Get url]\<rparr>))"
  using assms
  by (auto simp: session_get_def retryable_failure_def raises_for_status_def
           split: get_outcome.splits)

lemma example_domain: "get_domain ''http://example.com/feed'' = ''example.com''"
  by code_simp

text \<open>
  C3. When every attempt of \<open>fetch_with_backoff\<close> meets a retryable failure, the call makes
  exactly three requests with exactly two waits between them, of 1 second and then
  2 seconds, makes no request after the third, and returns \<open>None\<close>; the origin is in the
  failed set afterwards.
\<close>

theorem fetch_backoff_schedule:
  assumes "get_domain url \<notin> failed_domains w"
    and "\<forall>i<3. retryable_failure (net w (gets w + i) url hs)"
  shows "fetch_with_backoff w url hs =
         (None, w\<lparr>failed_domains := insert (get_domain url) (failed_domains w),
                  gets := gets w + 3,
                  trace := trace w @ [Get url, Sleep 1, Get url, Sleep 2, Get url]\<rparr>)"
proof -
  have r0: "retryable_failure (net w (gets w) url hs)"
    and r1: "retryable_failure (net w (Suc (gets w)) url hs)"
    and r2: "retryable_failure (net w (Suc (Suc (gets w))) url hs)"
    using assms(2) by (auto dest: spec[of _ 0] spec[of _ 1] spec[of _ 2])
  show ?thesis
    unfolding fetch_with_backoff_def range_MAX_RETRIES
    using assms(1) r0 r1 r2
    by (simp add: retry_step backoff_wait_def sleep_def MAX_RETRIES_def BACKOFF_BASE_def
          del: attempt_loop.simps(2))
qed

theorem fetch_backoff_schedule_witness:
  "get_domain ''http://example.com/feed'' \<notin> failed_domains (fresh_world timeout_net)
   \<and> fetch_with_backoff (fresh_world timeout_net) ''http://example.com/feed'' [] =
     (None, \<lparr>failed_domains = {''example.com''}, net = timeout_net, gets = 3,
             trace = [Get ''http://example.com/feed'', Sleep 1, Get ''http://example.com/feed'',
                      Sleep 2, Get ''http://example.com/feed'']\<rparr>)"
  using fetch_backoff_schedule [of "''http://example.com/feed''" "fresh_world timeout_net" "[]"]
  by (simp add: example_domain fresh_world_def timeout_net_def retryable_failure_def)

lemma backoff_wait_trace: "\<exists>r. trace (backoff_wait a w) = trace w @ r"
  by (simp add: backoff_wait_def sleep_def Let_def)

lemma attempt_loop_trace:
  "\<exists>r. trace (snd (attempt_loop url hs d as w)) = trace w @ r"
proof (induction as arbitrary: w)
  case Nil
  show ?case by simp
next
  case (Cons a as)
  let ?w1 = "w\<lparr>gets := Suc (gets w), trace := trace w @ [Get url]\<rparr>"
  obtain r where "trace (snd (attempt_loop url hs d as (backoff_wait a ?w1))) =
      trace (backoff_wait a ?w1) @ r"
    using Cons.IH by blast
  moreover obtain r' where "trace (backoff_wait a ?w1) = trace ?w1 @ r'"
    using backoff_wait_trace by blast
  ultimately have "trace (snd (attempt_loop url hs d as (backoff_wait a ?w1))) =
      trace w @ ([Get url] @ r' @ r)"
    by simp
  then have rec: "\<exists>q. trace (snd (attempt_loop url hs d as (backoff_wait a ?w1))) = trace w @ q"
    by blast
  show ?case
    using rec by (simp add: session_get_def split: get_outcome.splits)
qed

lemma attempt_loop_first_get:
  "\<exists>r. trace (snd (attempt_loop url hs d (a # as) w)) = trace w @ Get url # r"
proof -
  let ?w1 = "w\<lparr>gets := Suc (gets w), trace := trace w @ [Get url]\<rparr>"
  obtain r where "trace (snd (attempt_loop url hs d as (backoff_wait a ?w1))) =
      trace (backoff_wait a ?w1) @ r"
    using attempt_loop_trace by blast
  moreover obtain r' where "trace (backoff_wait a ?w1) = trace ?w1 @ r'"
    using backoff_wait_trace by blast
  ultimately have "trace (snd (attempt_loop url hs d as (backoff_wait a ?w1))) =
      trace w @ Get url # (r' @ r)"
    by simp
  then have rec: "\<exists>q. trace (snd (attempt_loop url hs d as (backoff_wait a ?w1))) =
      trace w @ Get url # q"
    by blast
  show ?thesis
    using rec by (simp add: session_get_def split: get_outcome.splits)
qed

lemma fetch_first_get:
  assumes "get_domain url \<notin> failed_domains w"
  shows "\<exists>r. trace (snd (fetch_with_backoff w url hs)) = trace w @ Get url # r"
proof -
  obtain r where r: "trace (snd (attempt_loop url hs (get_domain url) (0 # [1, 2]) w)) =
      trace w @ Get url # r"
    using attempt_loop_first_get by blast
  obtain res w1 where lp: "attempt_loop url hs (get_domain url) (0 # [1, 2]) w = (res, w1)"
    by (cases "attempt_loop url hs (get_domain url) (0 # [1, 2]) w")
  from r lp have "trace w1 = trace w @ Get url # r" by simp
  then show ?thesis
    unfolding fetch_with_backoff_def range_MAX_RETRIES using assms lp
    by (cases res) (simp_all del: attempt_loop.simps)
qed

text \<open>
  C6, as the code has it. A 4xx response other than 429 ends \<open>fetch_with_backoff\<close> at once:
  one request, no wait, \<open>None\<close> returned. The failed set is left as it was, so the next
  fetch to the same origin is not short-circuited: it issues its request.
\<close>

theorem definitive_4xx_no_retry_no_blacklist:
  assumes "get_domain url \<notin> failed_domains w"
    and "net w (gets w) url hs = Returned r"
    and "definitive_4xx r"
    and "get_domain url' = get_domain url"
  shows "fetch_with_backoff w url hs =
           (None, w\<lparr>gets := Suc (gets w), trace := trace w @ [Get url]\<rparr>)
         \<and> (\<exists>rest. trace (snd (fetch_with_backoff (snd (fetch_with_backoff w url hs)) url' hs')) =
               trace w @ Get url # Get url' # rest)"
proof -
  let ?w1 = "w\<lparr>gets := Suc (gets w), trace := trace w @ [Get url]\<rparr>"
  have one: "fetch_with_backoff w url hs = (None, ?w1)"
    unfolding fetch_with_backoff_def range_MAX_RETRIES
    using assms(1,2,3) by (simp add: session_get_def definitive_4xx_def)
  have "get_domain url' \<notin> failed_domains ?w1"
    using assms(1,4) by simp
  from fetch_first_get [OF this, of hs']
  obtain rest where "trace (snd (fetch_with_backoff ?w1 url' hs')) = trace ?w1 @ Get url' # rest"
    by blast
  with one show ?thesis by simp
qed

lemma example_domain_a: "get_domain ''http://example.com/a'' = ''example.com''"
  by code_simp

lemma example_domain_b: "get_domain ''http://example.com/b'' = ''example.com''"
  by code_simp

theorem definitive_4xx_no_retry_no_blacklist_witness:
  "get_domain ''http://example.com/a'' \<notin> failed_domains (fresh_world not_found_net)
   \<and> fetch_with_backoff (fresh_world not_found_net) ''http://example.com/a'' [] =
       (None, \<lparr>failed_domains = {}, net = not_found_net, gets = 1,
               trace = [Get ''http://example.com/a'']\<rparr>)
   \<and> (\<exists>rest. trace (snd (fetch_with_backoff
          (snd (fetch_with_backoff (fresh_world not_found_net) ''http://example.com/a'' []))
          ''http://example.com/b'' [])) =
        Get ''http://example.com/a'' # Get ''http://example.com/b'' # rest)"
  using definitive_4xx_no_retry_no_blacklist
    [of "''http://example.com/a''" "fresh_world not_found_net" "[]"
        "\<lparr>status_code = 404, resp_text = [], resp_headers = []\<rparr>" "''http://example.com/b''" "[]"]
  by (auto simp: example_domain_a example_domain_b fresh_world_def not_found_net_def
      definitive_4xx_def)

text \<open>
  C6 as stated fails: after a 404 from \<open>http://example.com/a\<close> the origin is not in the
  failed set, and the fetch of \<open>http://example.com/b\<close> goes to the network.
\<close>

theorem definitive_4xx_blacklist_counterexample:
  "fst (fetch_with_backoff (fresh_world not_found_net) ''http://example.com/a'' []) = None
   \<and> get_domain ''http://example.com/a'' \<notin>
       failed_domains (snd (fetch_with_backoff (fresh_world not_found_net) ''http://example.com/a'' []))
   \<and> trace (snd (fetch_with_backoff
        (snd (fetch_with_backoff (fresh_world not_found_net) ''http://example.com/a'' []))
        ''http://example.com/b'' [])) =
      [Get ''http://example.com/a'', Get ''http://example.com/b'']"
  unfolding fetch_with_backoff_def range_MAX_RETRIES
  by (simp add: example_domain_a example_domain_b fresh_world_def not_found_net_def
      session_get_def)
















section \<open>Feed discovery\<close>

text \<open>
  C8. \<open>discover_feed_url\<close> resolves first match first. A descriptor with a feed URL gets
  that URL back as it is, and one without a feed URL but with an HTML fallback gets
  \<open>None\<close>; in both cases the world is returned unchanged (no request is made) and the
  kind of the source is not looked at. Only with neither does the kind decide: a
  Substack source gets its pattern, and a generic site is probed.
\<close>

theorem discover_first_match_wins:
  assumes "source ''url'' = Some u"
  shows "(truthy (source ''feed_url'') \<longrightarrow>
            discover_feed_url L w source = Inr (source ''feed_url'', w))
       \<and> (\<not> truthy (source ''feed_url'') \<and> truthy (source ''html_fallback_url'') \<longrightarrow>
            discover_feed_url L w source = Inr (None, w))
       \<and> (\<not> truthy (source ''feed_url'') \<and> \<not> truthy (source ''html_fallback_url'')
            \<and> source ''type'' = Some ''substack'' \<longrightarrow>
            discover_feed_url L w source = Inr (Some (rstrip_chars ''/'' u @ ''/feed''), w))
       \<and> (\<not> truthy (source ''feed_url'') \<and> \<not> truthy (source ''html_fallback_url'')
            \<and> source ''type'' \<notin> {Some ''substack'', Some ''medium'', Some ''youtube''} \<longrightarrow>
            discover_feed_url L w source = Inr (discover_site_feed L w (rstrip_chars ''/'' u)))"
  using assms
  by (auto simp: discover_feed_url_def Let_def split: option.splits)

lemma example_source_fields:
  "example_source ''url'' = Some ''http://example.com/''"
  "example_source ''feed_url'' = Some ''http://example.com/rss''"
  "example_source ''html_fallback_url'' = Some ''http://example.com/news''"
  "example_source ''type'' = None"
  by (simp_all add: example_source_def)

lemma fallback_source_fields:
  "fallback_source ''url'' = Some ''http://example.com/''"
  "fallback_source ''feed_url'' = None"
  "fallback_source ''html_fallback_url'' = Some ''http://example.com/news''"
  by (simp_all add: fallback_source_def)

lemma substack_source_fields:
  "substack_source ''url'' = Some ''http://example.substack.com/''"
  "substack_source ''feed_url'' = None"
  "substack_source ''html_fallback_url'' = None"
  "substack_source ''type'' = Some ''substack''"
  by (simp_all add: substack_source_def)

lemma site_source_fields:
  "site_source ''url'' = Some ''http://example.com/''"
  "site_source ''feed_url'' = None"
  "site_source ''html_fallback_url'' = None"
  "site_source ''type'' = None"
  by (simp_all add: site_source_def)

lemma rstrip_example: "rstrip_chars ''/'' ''http://example.substack.com/'' = ''http://example.substack.com''"
  "rstrip_chars ''/'' ''http://example.com/'' = ''http://example.com''"
  by (simp_all add: rstrip_chars_def)

theorem discover_first_match_wins_witness:
  "discover_feed_url example_lib (fresh_world not_found_net) example_source =
     Inr (Some ''http://example.com/rss'', fresh_world not_found_net)
   \<and> discover_feed_url example_lib (fresh_world not_found_net) fallback_source =
     Inr (None, fresh_world not_found_net)
   \<and> discover_feed_url example_lib (fresh_world not_found_net) substack_source =
     Inr (Some ''http://example.substack.com/feed'', fresh_world not_found_net)
   \<and> discover_feed_url example_lib (fresh_world not_found_net) site_source =
     Inr (discover_site_feed example_lib (fresh_world not_found_net) ''http://example.com'')"
  using discover_first_match_wins [of example_source "''http://example.com/''" example_lib "fresh_world not_found_net"]
    discover_first_match_wins [of fallback_source "''http://example.com/''" example_lib "fresh_world not_found_net"]
    discover_first_match_wins [of substack_source "''http://example.substack.com/''" example_lib "fresh_world not_found_net"]
    discover_first_match_wins [of site_source "''http://example.com/''" example_lib "fresh_world not_found_net"]
  by (simp add: example_source_fields fallback_source_fields substack_source_fields
      site_source_fields truthy_def rstrip_example)

section \<open>Ingestion of one entry\<close>

lemma thin_content_iff: "thin_content c = (length (strip c) < 100)"
  by (auto simp: thin_content_def strip_def lstrip_def rstrip_def)

lemma fetch_article_text_world:
  "snd (fetch_article_text L w u) = snd (fetch_with_backoff w u [])"
  by (simp add: fetch_article_text_def split: prod.splits option.splits)

text \<open>
  C10. For a new entry, the article page is fetched exactly when the content the feed
  entry yields is shorter than 100 characters after trimming (empty content included):
  then the world is the one \<open>fetch_article_text\<close> leaves (with a request to the entry's
  URL unless its origin is blacklisted) and the stored text is the page's; with 100
  characters or more the world is unchanged and the stored text is the entry's.
\<close>

theorem article_fallback_below_100:
  assumes "entry_url_of e = Some u" and "u \<noteq> []"
    and "\<not> item_exists d (url_hash_of L u)"
  shows "\<exists>w' d' row.
           ingest_entry L sid now e (w, d, n) = Inr (w', d', Suc n)
         \<and> items d' = items d @ [row]
         \<and> (length (strip (get_entry_content L e)) < 100 \<longrightarrow>
               w' = snd (fetch_article_text L w u)
             \<and> content_text row =
                 Some (py_prefix (MAX_CHARS_PER_ITEM L) (fst (fetch_article_text L w u)))
             \<and> (get_domain u \<notin> failed_domains w \<longrightarrow> (\<exists>r. trace w' = trace w @ Get u # r)))
         \<and> (100 \<le> length (strip (get_entry_content L e)) \<longrightarrow>
               w' = w
             \<and> content_text row = Some (py_prefix (MAX_CHARS_PER_ITEM L) (get_entry_content L e)))"
proof (cases "length (strip (get_entry_content L e)) < 100")
  case True
  then have thin: "thin_content (get_entry_content L e)" by (simp add: thin_content_iff)
  obtain c w1 where f: "fetch_article_text L w u = (c, w1)"
    by (cases "fetch_article_text L w u")
  have tr: "get_domain u \<notin> failed_domains w \<longrightarrow> (\<exists>r. trace w1 = trace w @ Get u # r)"
    using fetch_first_get [of u w "[]"] fetch_article_text_world [of L w u] f by auto
  show ?thesis
    using assms thin True f tr
    by (simp add: ingest_entry_def insert_item_def Let_def)
next
  case False
  then have thin: "\<not> thin_content (get_entry_content L e)" by (simp add: thin_content_iff)
  show ?thesis
    using assms thin False
    by (simp add: ingest_entry_def insert_item_def Let_def)
qed


lemma example_entry_urls:
  "entry_url_of entry_a = Some ''http://example.com/a''"
  "entry_url_of entry_b = Some ''http://example.com/b''"
  by (simp_all add: entry_url_of_def entry_a_def entry_b_def truthy_def)

lemma collapse_newlines_id: "NL \<notin> set s \<Longrightarrow> collapse_newlines s = s"
  by (induction s) auto

lemma strip_id:
  assumes "s \<noteq> []" and "\<not> isspace (hd s)" and "\<not> isspace (last s)"
  shows "strip s = s"
proof -
  have l: "lstrip s = s"
    using assms(1,2) by (cases s) (simp_all add: lstrip_def)
  have "dropWhile isspace (rev s) = rev s"
    using assms(1,3) by (cases "rev s") (simp_all add: last_rev[symmetric] hd_rev)
  then show ?thesis by (simp add: strip_def rstrip_def l)
qed

lemma not_space_x: "\<not> isspace CHR ''x''" "\<not> isspace CHR ''s''" "\<not> isspace CHR ''t''"
  by (simp_all add: isspace_def)

lemma example_content_a: "get_entry_content example_lib entry_a = long_text"
  by (simp add: get_entry_content_def entry_a_def example_lib_def extract_text_from_html_def
      collapse_newlines_id py_prefix_def long_text_def)

lemma example_content_b: "get_entry_content example_lib entry_b = ''short''"
  by (simp add: get_entry_content_def entry_b_def example_lib_def extract_text_from_html_def
      collapse_newlines_id py_prefix_def)

lemma example_content_lengths:
  "length (strip (get_entry_content example_lib entry_a)) = 120"
  "length (strip (get_entry_content example_lib entry_b)) = 5"
  by (simp_all add: example_content_a example_content_b strip_id not_space_x long_text_def
      last_replicate)

lemma init_db_no_item: "\<not> item_exists init_db h"
  by (simp add: item_exists_def init_db_def)

lemma init_db_items: "items init_db = []"
  by (simp add: init_db_def)

lemma fresh_world_fields:
  "failed_domains (fresh_world n) = {}" "trace (fresh_world n) = []" "gets (fresh_world n) = 0"
  "net (fresh_world n) = n"
  by (simp_all add: fresh_world_def)

theorem article_fallback_below_100_witness:
  "length (strip (get_entry_content example_lib entry_b)) < 100
   \<and> (\<exists>w' d' row.
         ingest_entry example_lib 1 ''now'' entry_b (fresh_world not_found_net, init_db, 0) =
           Inr (w', d', 1)
       \<and> items d' = [row]
       \<and> w' = snd (fetch_article_text example_lib (fresh_world not_found_net) ''http://example.com/b'')
       \<and> (\<exists>r. trace w' = Get ''http://example.com/b'' # r))
   \<and> 100 \<le> length (strip (get_entry_content example_lib entry_a))
   \<and> (\<exists>d' row.
         ingest_entry example_lib 1 ''now'' entry_a (fresh_world not_found_net, init_db, 0) =
           Inr (fresh_world not_found_net, d', 1)
       \<and> items d' = [row]
       \<and> content_text row =
           Some (py_prefix (MAX_CHARS_PER_ITEM example_lib) (get_entry_content example_lib entry_a)))"
proof -
  have b: "\<exists>w' d' row.
         ingest_entry example_lib 1 ''now'' entry_b (fresh_world not_found_net, init_db, 0) =
           Inr (w', d', 1)
       \<and> items d' = [row]
       \<and> w' = snd (fetch_article_text example_lib (fresh_world not_found_net) ''http://example.com/b'')
       \<and> (\<exists>r. trace w' = Get ''http://example.com/b'' # r)"
    using article_fallback_below_100
      [of entry_b "''http://example.com/b''" init_db example_lib 1 "''now''"
          "fresh_world not_found_net" 0]
    by (auto simp: example_entry_urls example_content_lengths init_db_no_item example_domain_b
        fresh_world_fields init_db_items)
  have a: "\<exists>d' row.
         ingest_entry example_lib 1 ''now'' entry_a (fresh_world not_found_net, init_db, 0) =
           Inr (fresh_world not_found_net, d', 1)
       \<and> items d' = [row]
       \<and> content_text row =
           Some (py_prefix (MAX_CHARS_PER_ITEM example_lib) (get_entry_content example_lib entry_a))"
    using article_fallback_below_100
      [of entry_a "''http://example.com/a''" init_db example_lib 1 "''now''"
          "fresh_world not_found_net" 0]
    by (auto simp: example_entry_urls example_content_lengths init_db_no_item init_db_items)
  show ?thesis
    using a b by (simp add: example_content_lengths)
qed

section \<open>Deduplication during ingestion\<close>

lemma item_exists_iff: "item_exists d h = (h \<in> url_hash ` set (items d))"
  by (auto simp: item_exists_def list_ex_iff)

lemma ingest_entry_cases:
  "(ingest_entry L sid now e (w, d, n) = Inr (w, d, n) \<and> known_entry L d e)
   \<or> (\<exists>u w' d' row. entry_url_of e = Some u \<and> u \<noteq> [] \<and> \<not> item_exists d (url_hash_of L u)
        \<and> url_hash row = url_hash_of L u \<and> status row = ''new'' \<and> summary_json row = None
        \<and> item_id row = next_rowid (map item_id (items d))
        \<and> items d' = items d @ [row] \<and> sources d' = sources d
        \<and> ingest_entry L sid now e (w, d, n) = Inr (w', d', Suc n))"
proof (cases "known_entry L d e")
  case True
  then show ?thesis
    by (auto simp: ingest_entry_def known_entry_def Let_def split: option.splits)
next
  case False
  then obtain u where u: "entry_url_of e = Some u" "u \<noteq> []" "\<not> item_exists d (url_hash_of L u)"
    by (auto simp: known_entry_def split: option.splits)
  obtain c w1 where cw: "(if thin_content (get_entry_content L e)
        then fetch_article_text L w u else (get_entry_content L e, w)) = (c, w1)"
    by (cases "(if thin_content (get_entry_content L e)
        then fetch_article_text L w u else (get_entry_content L e, w))")
  show ?thesis
    using u cw by (simp add: ingest_entry_def insert_item_def Let_def)
qed

lemma ingest_entry_total:
  "\<exists>w' d' n'. ingest_entry L sid now e (w, d, n) = Inr (w', d', n')"
  using ingest_entry_cases [of L sid now e w d n] by auto

lemma ingest_entry_known:
  assumes "known_entry L d e"
  shows "ingest_entry L sid now e (w, d, n) = Inr (w, d, n)"
  using assms ingest_entry_cases [of L sid now e w d n] by (auto simp: known_entry_def)

lemma ingest_entries_known:
  assumes "\<forall>e\<in>set es. known_entry L d e"
  shows "ingest_entries L sid now es (w, d, n) = Inr (w, d, n)"
  using assms by (induction es) (simp_all add: ingest_entry_known)

lemma known_entry_mono:
  assumes "known_entry L d e" and "set (items d) \<subseteq> set (items d')"
  shows "known_entry L d' e"
  using assms by (auto simp: known_entry_def item_exists_iff split: option.splits)

lemma ingest_entry_learns:
  assumes "ingest_entry L sid now e (w, d, n) = Inr (w', d', n')"
  shows "known_entry L d' e \<and> set (items d) \<subseteq> set (items d') \<and> sources d' = sources d"
  using assms ingest_entry_cases [of L sid now e w d n]
  by (auto simp: known_entry_def item_exists_iff)

lemma ingest_entries_learns:
  assumes "ingest_entries L sid now es (w, d, n) = Inr (w', d', n')"
  shows "(\<forall>e\<in>set es. known_entry L d' e) \<and> set (items d) \<subseteq> set (items d')
         \<and> sources d' = sources d"
  using assms
proof (induction es arbitrary: w d n)
  case Nil
  then show ?case by simp
next
  case (Cons e es)
  obtain w1 d1 n1 where st: "ingest_entry L sid now e (w, d, n) = Inr (w1, d1, n1)"
    using ingest_entry_total by blast
  with Cons.prems have rest: "ingest_entries L sid now es (w1, d1, n1) = Inr (w', d', n')"
    by simp
  from Cons.IH [OF rest] have ih: "\<forall>e\<in>set es. known_entry L d' e"
    "set (items d1) \<subseteq> set (items d')" "sources d' = sources d1" by auto
  from ingest_entry_learns [OF st] have one: "known_entry L d1 e"
    "set (items d) \<subseteq> set (items d1)" "sources d1 = sources d" by auto
  show ?case
    using ih one known_entry_mono [OF one(1) ih(2)] by auto
qed

lemma ingest_entries_total:
  "\<exists>w' d' n'. ingest_entries L sid now es (w, d, n) = Inr (w', d', n')"
proof (induction es arbitrary: w d n)
  case Nil
  show ?case by simp
next
  case (Cons e es)
  obtain w1 d1 n1 where "ingest_entry L sid now e (w, d, n) = Inr (w1, d1, n1)"
    using ingest_entry_total by blast
  then show ?case using Cons.IH [of w1 d1 n1] by simp
qed


lemma update_source_items: "items (update_source d sid f) = items d"
  by (simp add: update_source_def)

lemma lookup_update_source:
  assumes "lookup_source d sid = Some row" and "\<And>r. src_id (f r) = src_id r"
  shows "lookup_source (update_source d sid f) sid = Some (f row)"
proof -
  have "find (\<lambda>r. src_id r = sid) (map (\<lambda>r. if src_id r = sid then f r else r) rs) =
        map_option f (find (\<lambda>r. src_id r = sid) rs)" for rs
    by (induction rs) (simp_all add: assms(2))
  then show ?thesis
    using assms(1) by (simp add: lookup_source_def update_source_def)
qed

lemma known_entry_items:
  "items d = items d' \<Longrightarrow> known_entry L d e = known_entry L d' e"
  by (simp add: known_entry_def item_exists_def split: option.splits)

lemma fetch_feed_all_known:
  assumes row: "lookup_source d sid = Some row"
    and known: "\<forall>r. fst (fetch_with_backoff w furl (conditional_headers row)) = Some r \<longrightarrow>
                  (\<forall>e\<in>set (feed_entries L (resp_text r)). known_entry L d e)"
  shows "\<exists>w2 d2. fetch_feed L w d sid furl = Inr (0, w2, d2) \<and> items d2 = items d"
proof -
  obtain res wb where f: "fetch_with_backoff w furl (conditional_headers row) = (res, wb)"
    by (cases "fetch_with_backoff w furl (conditional_headers row)")
  show ?thesis
  proof (cases res)
    case None
    then show ?thesis using row f by (simp add: fetch_feed_def)
  next
    case (Some r)
    let ?d1 = "update_source d sid
        (\<lambda>x. x\<lparr>etag := header_get (resp_headers r) ''ETag'',
                 last_modified := header_get (resp_headers r) ''Last-Modified'',
                 last_fetch_at := Some (clock L (gets wb))\<rparr>)"
    have "\<forall>e\<in>set (feed_entries L (resp_text r)). known_entry L d e"
      using known f Some by simp
    then have "\<forall>e\<in>set (feed_entries L (resp_text r)). known_entry L ?d1 e"
      using known_entry_items [of "?d1" d L] by (simp add: update_source_items)
    then have "ingest_entries L sid (clock L (gets wb)) (feed_entries L (resp_text r)) (wb, ?d1, 0) =
        Inr (wb, ?d1, 0)"
      by (rule ingest_entries_known)
    then show ?thesis
      using row f Some by (simp add: fetch_feed_def Let_def update_source_items)
  qed
qed

text \<open>
  C7. When a run of \<open>fetch_feed\<close> has read a feed (a response other than 304), it returns
  normally and the store then knows every entry of that feed; a second \<open>fetch_feed\<close> on
  that store, in any world in which the feed holds no entry but those of the first
  run, returns a count of 0 and leaves the items as they are.
\<close>

theorem rerun_inserts_nothing:
  assumes row: "lookup_source d sid = Some row"
    and first: "fetch_with_backoff w furl (conditional_headers row) = (Some r1, wa)"
    and fresh: "status_code r1 \<noteq> 304"
    and same: "\<forall>hs r. fst (fetch_with_backoff w' furl hs) = Some r \<longrightarrow>
                 set (feed_entries L (resp_text r)) \<subseteq> set (feed_entries L (resp_text r1))"
  shows "\<exists>n1 w1 d1 w2 d2.
           fetch_feed L w d sid furl = Inr (n1, w1, d1)
         \<and> (\<forall>e\<in>set (feed_entries L (resp_text r1)). known_entry L d1 e)
         \<and> fetch_feed L w' d1 sid furl = Inr (0, w2, d2)
         \<and> items d2 = items d1"
proof -
  let ?f = "\<lambda>x. x\<lparr>etag := header_get (resp_headers r1) ''ETag'',
                 last_modified := header_get (resp_headers r1) ''Last-Modified'',
                 last_fetch_at := Some (clock L (gets wa))\<rparr>"
  let ?d0 = "update_source d sid ?f"
  let ?es = "feed_entries L (resp_text r1)"
  obtain w1 d1 n1 where ing: "ingest_entries L sid (clock L (gets wa)) ?es (wa, ?d0, 0) =
      Inr (w1, d1, n1)"
    using ingest_entries_total by blast
  from ingest_entries_learns [OF ing]
  have kn: "\<forall>e\<in>set ?es. known_entry L d1 e" and src: "sources d1 = sources ?d0"
    by auto
  have row0: "lookup_source ?d0 sid = Some (?f row)"
    using row by (rule lookup_update_source) simp
  then have row1: "lookup_source d1 sid = Some (?f row)"
    using src by (simp add: lookup_source_def)
  show ?thesis
  proof (cases "?es = []")
    case True
    have one: "fetch_feed L w d sid furl = Inr (0, wa, ?d0)"
      using True row first fresh by (simp add: fetch_feed_def Let_def)
    have "\<forall>r. fst (fetch_with_backoff w' furl (conditional_headers (?f row))) = Some r \<longrightarrow>
        (\<forall>e\<in>set (feed_entries L (resp_text r)). known_entry L ?d0 e)"
      using same True by auto
    from fetch_feed_all_known [OF row0 this]
    obtain w2 d2 where "fetch_feed L w' ?d0 sid furl = Inr (0, w2, d2)" "items d2 = items ?d0"
      by blast
    with one True show ?thesis by auto
  next
    case False
    have one: "fetch_feed L w d sid furl = Inr (n1, w1, d1)"
      using False row first fresh ing by (simp add: fetch_feed_def Let_def)
    have "\<forall>r. fst (fetch_with_backoff w' furl (conditional_headers (?f row))) = Some r \<longrightarrow>
        (\<forall>e\<in>set (feed_entries L (resp_text r)). known_entry L d1 e)"
      using same kn by blast
    from fetch_feed_all_known [OF row1 this]
    obtain w2 d2 where "fetch_feed L w' d1 sid furl = Inr (0, w2, d2)" "items d2 = items d1"
      by blast
    with one kn show ?thesis by blast
  qed
qed

lemma example_domain_rss: "get_domain ''http://example.com/rss'' = ''example.com''"
  by code_simp

lemma feed_net_fetch:
  "fetch_with_backoff (fresh_world feed_net) ''http://example.com/rss'' hs =
     (Some feed_response,
      \<lparr>failed_domains = {}, net = feed_net, gets = 1, trace = [Get ''http://example.com/rss'']\<rparr>)"
  unfolding fetch_with_backoff_def range_MAX_RETRIES
  by (simp add: example_domain_rss fresh_world_def session_get_def feed_net_def
      feed_response_def raises_for_status_def)

lemma example_db_row:
  "lookup_source example_db 1 = Some example_row"
  "lookup_source example_db (Suc 0) = Some example_row"
  by (simp_all add: lookup_source_def example_db_def example_row_def)

lemma example_feed_entries:
  "feed_entries example_lib (resp_text feed_response) = [entry_a, entry_b]"
  "feed_entries example_lib ''FEED'' = [entry_a, entry_b]"
  by (simp_all add: example_lib_def feed_response_def)


lemma example_first_run:
  "\<exists>w1 d1. fetch_feed example_lib (fresh_world feed_net) example_db 1 ''http://example.com/rss'' =
       Inr (2, w1, d1)
     \<and> map item_url (items d1) = [''http://example.com/a'', ''http://example.com/b'']
     \<and> map url_hash (items d1) = [''http://example.com/a'', ''http://example.com/b'']
     \<and> trace w1 = [Get ''http://example.com/rss'', Get ''http://example.com/b'']"
proof -
  have hs: "conditional_headers example_row = []"
    by (simp add: conditional_headers_def example_row_def)
  let ?w1 = "\<lparr>failed_domains = {}, net = feed_net, gets = Suc 0, trace = [Get ''http://example.com/rss'']\<rparr>"
  have resp: "status_code feed_response = 200" "resp_text feed_response = ''FEED''"
    "resp_headers feed_response = []"
    by (simp_all add: feed_response_def)
  have art: "fetch_article_text example_lib ?w1 ''http://example.com/b'' =
      ([], ?w1\<lparr>gets := 2, trace := [Get ''http://example.com/rss'', Get ''http://example.com/b'']\<rparr>)"
    unfolding fetch_article_text_def fetch_with_backoff_def range_MAX_RETRIES
    by (simp add: example_domain_b session_get_def feed_net_def)
  have thin: "\<not> thin_content (get_entry_content example_lib entry_a)"
    "thin_content (get_entry_content example_lib entry_b)"
    by (simp_all add: thin_content_iff example_content_lengths)
  have hash: "url_hash_of example_lib u = u" for u
    by (simp add: url_hash_of_def example_lib_def)
  have items0: "items example_db = []"
    by (simp add: example_db_def)
  show ?thesis
    by (simp add: fetch_feed_def example_db_row hs feed_net_fetch
        example_feed_entries Let_def ingest_entry_def example_entry_urls hash item_exists_def
        update_source_items items0 thin art insert_item_def resp)
qed

theorem rerun_inserts_nothing_witness:
  "lookup_source example_db 1 = Some example_row
   \<and> fetch_with_backoff (fresh_world feed_net) ''http://example.com/rss''
         (conditional_headers example_row) =
       (Some feed_response,
        \<lparr>failed_domains = {}, net = feed_net, gets = 1, trace = [Get ''http://example.com/rss'']\<rparr>)
   \<and> (\<exists>w1 d1 w2 d2.
         fetch_feed example_lib (fresh_world feed_net) example_db 1 ''http://example.com/rss'' =
           Inr (2, w1, d1)
       \<and> known_entry example_lib d1 entry_a \<and> known_entry example_lib d1 entry_b
       \<and> fetch_feed example_lib (fresh_world feed_net) d1 1 ''http://example.com/rss'' =
           Inr (0, w2, d2)
       \<and> items d2 = items d1)"
proof -
  have "\<exists>n1 w1 d1 w2 d2.
           fetch_feed example_lib (fresh_world feed_net) example_db 1 ''http://example.com/rss'' =
             Inr (n1, w1, d1)
         \<and> (\<forall>e\<in>set (feed_entries example_lib (resp_text feed_response)).
               known_entry example_lib d1 e)
         \<and> fetch_feed example_lib (fresh_world feed_net) d1 1 ''http://example.com/rss'' =
             Inr (0, w2, d2)
         \<and> items d2 = items d1"
    by (rule rerun_inserts_nothing [OF example_db_row(1) feed_net_fetch])
       (simp_all add: feed_response_def feed_net_fetch)
  then show ?thesis
    using example_first_run by (auto simp: example_db_row feed_net_fetch example_feed_entries)
qed

section \<open>What a run of the fetcher does to the store\<close>

lemma extends_refl: "extends_with_new d d"
  by (simp add: extends_with_new_def)

lemma extends_items_eq: "items d' = items d \<Longrightarrow> extends_with_new d d'"
  by (simp add: extends_with_new_def)

lemma extends_trans:
  assumes "extends_with_new d d1" and "extends_with_new d1 d2"
  shows "extends_with_new d d2"
proof -
  obtain n1 where n1: "items d1 = items d @ n1"
    "list_all (\<lambda>r. status r = ''new'' \<and> summary_json r = None) n1"
    "distinct (map url_hash n1)" "list_all (\<lambda>r. \<not> item_exists d (url_hash r)) n1"
    using assms(1) by (auto simp: extends_with_new_def)
  obtain n2 where n2: "items d2 = items d1 @ n2"
    "list_all (\<lambda>r. status r = ''new'' \<and> summary_json r = None) n2"
    "distinct (map url_hash n2)" "list_all (\<lambda>r. \<not> item_exists d1 (url_hash r)) n2"
    using assms(2) by (auto simp: extends_with_new_def)
  have a: "items d2 = items d @ (n1 @ n2)" using n1(1) n2(1) by simp
  have b: "list_all (\<lambda>r. status r = ''new'' \<and> summary_json r = None) (n1 @ n2)"
    using n1(2) n2(2) by simp
  have c: "distinct (map url_hash (n1 @ n2))"
    using n1(1,3) n2(3,4) by (auto simp: item_exists_def list_ex_iff list_all_iff)
  have d: "list_all (\<lambda>r. \<not> item_exists d (url_hash r)) (n1 @ n2)"
    using n1(1,4) n2(4) by (auto simp: item_exists_def list_ex_iff list_all_iff)
  show ?thesis
    unfolding extends_with_new_def using a b c d by blast
qed

lemma extends_distinct:
  assumes "extends_with_new d d'" and "distinct (map url_hash (items d))"
  shows "distinct (map url_hash (items d'))"
  using assms by (auto simp: extends_with_new_def item_exists_def list_ex_iff list_all_iff)

lemma ingest_entry_extends:
  assumes "ingest_entry L sid now e (w, d, n) = Inr (w', d', n')"
  shows "extends_with_new d d' \<and> sources d' = sources d"
  using assms ingest_entry_cases [of L sid now e w d n]
  by (auto simp: extends_with_new_def)

lemma ingest_entries_extends:
  assumes "ingest_entries L sid now es (w, d, n) = Inr (w', d', n')"
  shows "extends_with_new d d'"
  using assms
proof (induction es arbitrary: w d n)
  case Nil
  then show ?case by (simp add: extends_refl)
next
  case (Cons e es)
  obtain w1 d1 n1 where st: "ingest_entry L sid now e (w, d, n) = Inr (w1, d1, n1)"
    using ingest_entry_total by blast
  with Cons.prems have "ingest_entries L sid now es (w1, d1, n1) = Inr (w', d', n')"
    by simp
  then have "extends_with_new d1 d'" by (rule Cons.IH)
  moreover have "extends_with_new d d1" using ingest_entry_extends [OF st] by simp
  ultimately show ?case using extends_trans by blast
qed

lemma fetch_feed_extends:
  assumes "fetch_feed L w d sid furl = Inr (n, w', d')"
  shows "extends_with_new d d'"
proof -
  obtain row where row: "lookup_source d sid = Some row"
    using assms by (cases "lookup_source d sid") (simp_all add: fetch_feed_def)
  obtain res wb where f: "fetch_with_backoff w furl (conditional_headers row) = (res, wb)"
    by (cases "fetch_with_backoff w furl (conditional_headers row)")
  show ?thesis
  proof (cases res)
    case None
    then show ?thesis using assms row f by (auto simp: fetch_feed_def extends_refl)
  next
    case (Some r)
    let ?d0 = "update_source d sid
        (\<lambda>x. x\<lparr>etag := header_get (resp_headers r) ''ETag'',
                 last_modified := header_get (resp_headers r) ''Last-Modified'',
                 last_fetch_at := Some (clock L (gets wb))\<rparr>)"
    have d0: "extends_with_new d ?d0"
      by (rule extends_items_eq) (simp add: update_source_items)
    show ?thesis
    proof (cases "status_code r = 304 \<or> feed_entries L (resp_text r) = []")
      case True
      then show ?thesis
        using assms row f Some d0
        by (auto simp: fetch_feed_def Let_def extends_refl split: if_splits)
    next
      case False
      obtain w2 d2 n2 where ing: "ingest_entries L sid (clock L (gets wb))
          (feed_entries L (resp_text r)) (wb, ?d0, 0) = Inr (w2, d2, n2)"
        using ingest_entries_total by blast
      have "d' = d2"
        using assms row f Some False ing by (simp add: fetch_feed_def Let_def)
      then show ?thesis
        using ingest_entries_extends [OF ing] d0 extends_trans by blast
    qed
  qed
qed

lemma upsert_source_items:
  assumes "upsert_source d source furl = Inr (sid, d')"
  shows "items d' = items d"
  using assms
  by (auto simp: upsert_source_def Let_def update_source_def split: option.splits)

lemma main_loop_extends:
  assumes "main_loop L srcs w d t = (err, w', d', t')"
  shows "extends_with_new d d'"
  using assms
proof (induction srcs arbitrary: w d t)
  case Nil
  then show ?case by (simp add: extends_refl)
next
  case (Cons source rest)
  show ?case
  proof (cases "source ''name''")
    case None
    then show ?thesis using Cons.prems by (simp add: extends_refl)
  next
    case (Some nm)
    show ?thesis
    proof (cases "discover_feed_url L w source")
      case (Inl e)
      then show ?thesis using Cons.prems Some by (simp add: extends_refl)
    next
      case (Inr fw)
      obtain found w1 where fw: "fw = (found, w1)" by (cases fw)
      show ?thesis
      proof (cases "if truthy found then found else None")
        case None
        show ?thesis
        proof (cases "upsert_source d source None")
          case (Inl e)
          then show ?thesis using Cons.prems Some Inr fw None by (simp add: extends_refl)
        next
          case (Inr sd)
          obtain sid d1 where sd: "sd = (sid, d1)" by (cases sd)
          have "main_loop L rest w1 d1 t = (err, w', d', t')"
            using Cons.prems Some \<open>discover_feed_url L w source = Inr fw\<close> fw None Inr sd
            by simp
          then have "extends_with_new d1 d'" by (rule Cons.IH)
          moreover have "extends_with_new d d1"
            using upsert_source_items Inr sd extends_items_eq by blast
          ultimately show ?thesis using extends_trans by blast
        qed
      next
        case (Some furl)
        note furl = this
        show ?thesis
        proof (cases "upsert_source d source (Some furl)")
          case (Inl e)
          then show ?thesis
            using Cons.prems \<open>source ''name'' = Some nm\<close> Inr fw furl
            by (simp add: extends_refl)
        next
          case (Inr sd)
          obtain sid d1 where sd: "sd = (sid, d1)" by (cases sd)
          have dd1: "extends_with_new d d1"
            using upsert_source_items Inr sd extends_items_eq by blast
          show ?thesis
          proof (cases "fetch_feed L w1 d1 sid furl")
            case (Inl e)
            then have "d' = d1"
              using Cons.prems \<open>source ''name'' = Some nm\<close>
                \<open>discover_feed_url L w source = Inr fw\<close> fw furl Inr sd
              by simp
            then show ?thesis using dd1 by simp
          next
            case (Inr res)
            obtain cnt w2 d2 where res: "res = (cnt, w2, d2)" by (cases res)
            have "main_loop L rest (sleep (1 / 5) w2) d2 (t + cnt) = (err, w', d', t')"
              using Cons.prems \<open>source ''name'' = Some nm\<close>
                \<open>discover_feed_url L w source = Inr fw\<close> fw furl
                \<open>upsert_source d source (Some furl) = Inr sd\<close> sd Inr res
              by simp
            then have "extends_with_new d2 d'" by (rule Cons.IH)
            moreover have "extends_with_new d1 d2"
              using fetch_feed_extends Inr res by blast
            ultimately show ?thesis using dd1 extends_trans by blast
          qed
        qed
      qed
    qed
  qed
qed

lemma fetcher_main_extends:
  "fetcher_main L srcs n d = (err, w, d', cnt) \<Longrightarrow> extends_with_new d d'"
  unfolding fetcher_main_def by (rule main_loop_extends)

section \<open>What a run of the summarizer does to the store\<close>

lemma try_parse_Some:
  assumes "try_parse J txt = Some s"
  shows "json_loads J txt = Some (JObject s) \<and> set REQUIRED_FIELDS \<subseteq> set (map fst s)"
  using assms by (auto simp: try_parse_def split: option.splits json.splits if_splits)

lemma try_suffixes_Some:
  assumes "try_suffixes J txt sfx = Some s"
  shows "\<exists>t. try_parse J t = Some s"
  using assms by (induction sfx) (auto split: option.splits if_splits)

lemma parse_summary_json_Some:
  assumes "parse_summary_json J txt = Some s"
  shows "\<exists>t. try_parse J t = Some s"
  using assms try_suffixes_Some
  by (auto simp: parse_summary_json_def Let_def split: option.splits if_splits)

lemma summarize_item_Inr:
  assumes "summarize_item J E p w title content = (Inr (s, m), w1)"
  shows "\<exists>t. try_parse J t = Some s"
  using assms parse_summary_json_Some
  by (auto simp: summarize_item_def Let_def split: prod.splits sum.splits option.splits)

text \<open>The three ways a turn of the loop over the rows can go.\<close>

lemma summarize_row_cases:
  "(strip (case ctext of Some c \<Rightarrow> c | None \<Rightarrow> []) = []
      \<and> summarize_row J E p (iid, title, ctext) (w, d, a, b) =
          (w, update_item d iid (\<lambda>i. i\<lparr>status := ''skipped''\<rparr>), a, b))
   \<or> (\<exists>s m w1 t. strip (case ctext of Some c \<Rightarrow> c | None \<Rightarrow> []) \<noteq> []
        \<and> try_parse J t = Some s
        \<and> summarize_row J E p (iid, title, ctext) (w, d, a, b) =
            (pause (1 / 2) w1,
             update_item d iid
               (\<lambda>i. i\<lparr>summary_json := Some (json_dumps J (JObject s)),
                        model_used := Some m, status := ''summarized''\<rparr>),
             Suc a, b))
   \<or> (\<exists>w1. strip (case ctext of Some c \<Rightarrow> c | None \<Rightarrow> []) \<noteq> []
        \<and> summarize_row J E p (iid, title, ctext) (w, d, a, b) = (pause (1 / 2) w1, d, a, Suc b))"
proof (cases "strip (case ctext of Some c \<Rightarrow> c | None \<Rightarrow> []) = []")
  case True
  then show ?thesis by (simp add: summarize_row_def)
next
  case False
  let ?c = "case ctext of Some c \<Rightarrow> c | None \<Rightarrow> []"
  obtain res w1 where si: "summarize_item J E p w title ?c = (res, w1)"
    by (cases "summarize_item J E p w title ?c")
  show ?thesis
  proof (cases res)
    case (Inl e)
    then show ?thesis using False si by (auto simp: summarize_row_def)
  next
    case (Inr sm)
    obtain s m where sm: "sm = (s, m)" by (cases sm)
    obtain t where "try_parse J t = Some s"
      using summarize_item_Inr si Inr sm by blast
    then show ?thesis using False si Inr sm by (auto simp: summarize_row_def)
  qed
qed

lemma update_item_hashes:
  assumes "\<And>i. url_hash (f i) = url_hash i"
  shows "map url_hash (items (update_item d iid f)) = map url_hash (items d)"
  by (simp add: update_item_def assms o_def)

lemma summarize_row_hashes:
  assumes "summarize_row J E p row (w, d, a, b) = (w', d', a', b')"
  shows "map url_hash (items d') = map url_hash (items d)"
proof -
  obtain iid title ctext where row: "row = (iid, title, ctext)" by (cases row)
  show ?thesis
    using assms summarize_row_cases [of ctext J E p iid title w d a b]
    unfolding row by (auto simp: update_item_hashes)
qed

lemma summarize_rows_hashes:
  assumes "summarize_rows J E p rows (w, d, a, b) = (w', d', a', b')"
  shows "map url_hash (items d') = map url_hash (items d)"
  using assms
proof (induction rows arbitrary: w d a b)
  case Nil
  then show ?case by simp
next
  case (Cons row rows)
  obtain w1 d1 a1 b1 where st: "summarize_row J E p row (w, d, a, b) = (w1, d1, a1, b1)"
    by (cases "summarize_row J E p row (w, d, a, b)")
  with Cons.prems have "summarize_rows J E p rows (w1, d1, a1, b1) = (w', d', a', b')"
    by simp
  then have "map url_hash (items d') = map url_hash (items d1)" by (rule Cons.IH)
  then show ?case using summarize_row_hashes [OF st] by simp
qed

lemma skip_old_items_hashes: "map url_hash (items (skip_old_items d)) = map url_hash (items d)"
  by (simp add: skip_old_items_def o_def)

lemma summarizer_main_hashes:
  assumes "summarizer_main J E f d = (err, w', d', a, b)"
  shows "map url_hash (items d') = map url_hash (items d)"
proof -
  let ?d1 = "skip_old_items d"
  let ?rows = "select_new_items E ?d1"
  show ?thesis
  proof (cases "?rows = [] \<or> (\<exists>e. get_llm_client E = Inl e)")
    case True
    then have "d' = ?d1"
      using assms by (auto simp: summarizer_main_def Let_def split: if_splits)
    then show ?thesis by (simp add: skip_old_items_hashes)
  next
    case False
    then obtain p where p: "get_llm_client E = Inr p" by (cases "get_llm_client E") auto
    obtain w1 d2 a2 b2 where lp: "summarize_rows J E p ?rows (fresh_llm_world f, ?d1, 0, 0) =
        (w1, d2, a2, b2)"
      by (cases "summarize_rows J E p ?rows (fresh_llm_world f, ?d1, 0, 0)")
    have "d' = d2"
      using assms False p lp by (simp add: summarizer_main_def Let_def)
    then show ?thesis
      using summarize_rows_hashes [OF lp] by (simp add: skip_old_items_hashes)
  qed
qed

text \<open>
  C1. In every store that runs of the two stages can leave, no two items have the same
  content hash; and the store refuses the insertion of an item whose hash it holds
  already, whatever the source of the item.
\<close>

theorem content_hash_unique:
  assumes "reachable J d"
  shows "distinct (map url_hash (items d))
       \<and> (\<forall>r. item_exists d (url_hash r) \<longrightarrow> insert_item d r = Inl IntegrityError)"
proof -
  have "distinct (map url_hash (items d))"
    using assms
  proof (induction rule: reachable.induct)
    case start
    show ?case by (simp add: init_db_def)
  next
    case (fetched d L srcs n err w d' cnt)
    then show ?case using fetcher_main_extends extends_distinct by blast
  next
    case (summarized d E f err w d' a b)
    then show ?case using summarizer_main_hashes by metis
  qed
  then show ?thesis by (simp add: insert_item_def)
qed

lemma example_upsert:
  "upsert_source init_db example_source (Some ''http://example.com/rss'') = Inr (1, example_db)"
  by (simp add: upsert_source_def example_source_fields init_db_def next_rowid_def truthy_def
      example_db_def example_row_def example_source_def)

lemma example_discover:
  "discover_feed_url example_lib w example_source = Inr (Some ''http://example.com/rss'', w)"
  by (simp add: discover_feed_url_def example_source_fields truthy_def Let_def)

lemma example_store_items:
  "map url_hash (items example_store) = [''http://example.com/a'', ''http://example.com/b'']"
proof -
  obtain w1 d1 where run: "fetch_feed example_lib (fresh_world feed_net) example_db 1
      ''http://example.com/rss'' = Inr (2, w1, d1)"
    and hs: "map url_hash (items d1) = [''http://example.com/a'', ''http://example.com/b'']"
    using example_first_run by auto
  have run': "fetch_feed example_lib (fresh_world feed_net) example_db (Suc 0)
      ''http://example.com/rss'' = Inr (2, w1, d1)"
    using run by simp
  have name: "example_source ''name'' = Some ''Example''"
    by (simp add: example_source_def)
  have up: "upsert_source init_db example_source (Some ''http://example.com/rss'') =
      Inr (Suc 0, example_db)"
    using example_upsert by simp
  have "fetcher_main example_lib [example_source] feed_net init_db =
      (None, sleep (1 / 5) w1, d1, 2)"
    by (simp add: fetcher_main_def name example_discover up truthy_def run')
  then show ?thesis by (simp add: example_store_def hs)
qed

theorem content_hash_unique_witness:
  "reachable example_json example_store
   \<and> map url_hash (items example_store) = [''http://example.com/a'', ''http://example.com/b'']
   \<and> distinct (map url_hash (items example_store))
   \<and> insert_item example_store
        \<lparr>item_id = 0, source_id = 2, item_title = ''Again'', item_url = ''http://example.com/a'',
         guid = None, published_at = None, fetched_at = ''now'', content_text = None,
         url_hash = ''http://example.com/a'', status = ''new'', summary_json = None,
         model_used = None\<rparr> = Inl IntegrityError"
proof -
  have "fetcher_main example_lib [example_source] feed_net init_db =
      (fst (fetcher_main example_lib [example_source] feed_net init_db),
       fst (snd (fetcher_main example_lib [example_source] feed_net init_db)),
       example_store,
       snd (snd (snd (fetcher_main example_lib [example_source] feed_net init_db))))"
    by (simp add: example_store_def)
  with reachable.start have r: "reachable example_json example_store"
    by (rule reachable.fetched)
  have ex: "item_exists example_store ''http://example.com/a''"
    using example_store_items by (auto simp: item_exists_iff image_iff)
  show ?thesis
    using content_hash_unique [OF r] example_store_items ex r by simp
qed

section \<open>The loop of the summarizer over the selected rows\<close>

lemma update_item_other:
  assumes "j \<noteq> iid" and "\<And>i. item_id (f i) = item_id i"
  shows "filter (\<lambda>i. item_id i = iid) (items (update_item d j f)) =
         filter (\<lambda>i. item_id i = iid) (items d)"
proof -
  have "filter (\<lambda>i. item_id i = iid) (map (\<lambda>i. if item_id i = j then f i else i) xs) =
        filter (\<lambda>i. item_id i = iid) xs" for xs
    using assms by (induction xs) auto
  then show ?thesis by (simp add: update_item_def)
qed

lemma summarize_row_other:
  assumes "j \<noteq> iid"
    and "summarize_row J E p (j, title, ctext) (w, d, a, b) = (w', d', a', b')"
  shows "filter (\<lambda>i. item_id i = iid) (items d') = filter (\<lambda>i. item_id i = iid) (items d)"
  using assms(2) summarize_row_cases [of ctext J E p j title w d a b]
  by (auto simp: update_item_other [OF assms(1)])

lemma summarize_rows_other:
  assumes "iid \<notin> fst ` set rows"
    and "summarize_rows J E p rows (w, d, a, b) = (w', d', a', b')"
  shows "filter (\<lambda>i. item_id i = iid) (items d') = filter (\<lambda>i. item_id i = iid) (items d)"
  using assms
proof (induction rows arbitrary: w d a b)
  case Nil
  then show ?case by simp
next
  case (Cons row rows)
  obtain j title ctext where row: "row = (j, title, ctext)" by (cases row)
  obtain w1 d1 a1 b1 where st: "summarize_row J E p (j, title, ctext) (w, d, a, b) = (w1, d1, a1, b1)"
    by (cases "summarize_row J E p (j, title, ctext) (w, d, a, b)")
  have j: "j \<noteq> iid" using Cons.prems(1) row by auto
  have rest: "summarize_rows J E p rows (w1, d1, a1, b1) = (w', d', a', b')"
    using Cons.prems(2) row st by simp
  have "filter (\<lambda>i. item_id i = iid) (items d') = filter (\<lambda>i. item_id i = iid) (items d1)"
    using Cons.IH [OF _ rest] Cons.prems(1) by simp
  then show ?case using summarize_row_other [OF j st] by simp
qed

lemma summarize_row_blank:
  assumes "strip (case ctext of Some c \<Rightarrow> c | None \<Rightarrow> []) = []"
  shows "summarize_row J E p (iid, title, ctext) (w, d, a, b) =
         (w, update_item d iid (\<lambda>i. i\<lparr>status := ''skipped''\<rparr>), a, b)"
  using assms by (simp add: summarize_row_def)

lemma skipped_after_update:
  "list_all (\<lambda>i. status i = ''skipped'')
     (filter (\<lambda>i. item_id i = iid) (items (update_item d iid (\<lambda>i. i\<lparr>status := ''skipped''\<rparr>))))"
proof -
  have "list_all (\<lambda>i. status i = ''skipped'')
     (filter (\<lambda>i. item_id i = iid)
        (map (\<lambda>i. if item_id i = iid then i\<lparr>status := ''skipped''\<rparr> else i) xs))" for xs
    by (induction xs) auto
  then show ?thesis by (simp add: update_item_def)
qed

lemma blank_row_skipped:
  assumes "distinct (map fst rows)" and "(iid, title, ctext) \<in> set rows"
    and "strip (case ctext of Some c \<Rightarrow> c | None \<Rightarrow> []) = []"
    and "summarize_rows J E p rows (w, d, a, b) = (w', d', a', b')"
  shows "list_all (\<lambda>i. status i = ''skipped'') (filter (\<lambda>i. item_id i = iid) (items d'))"
  using assms(1,2,4)
proof (induction rows arbitrary: w d a b)
  case Nil
  then show ?case by simp
next
  case (Cons row rows)
  obtain j t c where row: "row = (j, t, c)" by (cases row)
  obtain w1 d1 a1 b1 where st: "summarize_row J E p (j, t, c) (w, d, a, b) = (w1, d1, a1, b1)"
    by (cases "summarize_row J E p (j, t, c) (w, d, a, b)")
  have rest: "summarize_rows J E p rows (w1, d1, a1, b1) = (w', d', a', b')"
    using Cons.prems(3) row st by simp
  show ?case
  proof (cases "(iid, title, ctext) \<in> set rows")
    case True
    then show ?thesis using Cons.IH [OF _ True rest] Cons.prems(1) by simp
  next
    case False
    then have here: "row = (iid, title, ctext)" using Cons.prems(2) by simp
    then have eq: "j = iid" "t = title" "c = ctext" using row by simp_all
    have "iid \<notin> fst ` set rows" using Cons.prems(1) here by auto
    from summarize_rows_other [OF this rest]
    have "filter (\<lambda>i. item_id i = iid) (items d') = filter (\<lambda>i. item_id i = iid) (items d1)" .
    moreover have "d1 = update_item d iid (\<lambda>i. i\<lparr>status := ''skipped''\<rparr>)"
      using st summarize_row_blank [OF assms(3), of J E p iid title w d a b] eq by simp
    ultimately show ?thesis using skipped_after_update by simp
  qed
qed

lemma same_item_refl: "same_item i i"
  by (simp add: same_item_def)

lemma summarized_from_refl: "summarized_from rows i i"
  by (simp add: summarized_from_def same_item_refl)

lemma summarized_from_update:
  assumes "\<And>i. same_item i (f i)"
    and "\<And>i. status (f i) = ''summarized'' \<Longrightarrow> nonblank_row rows iid"
  shows "list_all2 (summarized_from rows) (items d) (items (update_item d iid f))"
proof -
  have "list_all2 (summarized_from rows) xs (map (\<lambda>i. if item_id i = iid then f i else i) xs)" for xs
  proof (induction xs)
    case Nil
    show ?case by simp
  next
    case (Cons x xs)
    have "summarized_from rows x (if item_id x = iid then f x else x)"
      using assms by (auto simp: summarized_from_def same_item_refl)
    then show ?case using Cons.IH by simp
  qed
  then show ?thesis by (simp add: update_item_def)
qed

lemma summarized_from_mono:
  assumes "summarized_from rs i i'" and "set rs \<subseteq> set rows"
  shows "summarized_from rows i i'"
  using assms by (auto simp: summarized_from_def nonblank_row_def list_ex_iff)

lemma summarized_from_trans:
  assumes "summarized_from rows i i1" and "summarized_from rows i1 i2"
  shows "summarized_from rows i i2"
  using assms by (auto simp: summarized_from_def same_item_def)

lemma summarize_row_from:
  assumes "summarize_row J E p row (w, d, a, b) = (w', d', a', b')"
  shows "list_all2 (summarized_from [row]) (items d) (items d')"
proof -
  obtain j t c where row: "row = (j, t, c)" by (cases row)
  have refl: "list_all2 (summarized_from [row]) (items d) (items d)"
    by (simp add: list_all2_refl summarized_from_refl)
  have skip: "list_all2 (summarized_from [row]) (items d)
      (items (update_item d j (\<lambda>i. i\<lparr>status := ''skipped''\<rparr>)))"
    by (rule summarized_from_update) (simp_all add: same_item_def)
  have summ: "list_all2 (summarized_from [row]) (items d)
      (items (update_item d j (\<lambda>i. i\<lparr>summary_json := Some x, model_used := Some m,
                                     status := ''summarized''\<rparr>)))"
    if "strip (case c of Some c \<Rightarrow> c | None \<Rightarrow> []) \<noteq> []" for x m
    by (rule summarized_from_update) (simp_all add: same_item_def nonblank_row_def row that)
  show ?thesis
    using assms summarize_row_cases [of c J E p j t w d a b] refl skip summ
    unfolding row by auto
qed

lemma summarize_rows_from:
  assumes "summarize_rows J E p rows (w, d, a, b) = (w', d', a', b')"
  shows "list_all2 (summarized_from rows) (items d) (items d')"
  using assms
proof (induction rows arbitrary: w d a b)
  case Nil
  then show ?case by (simp add: list_all2_refl summarized_from_refl)
next
  case (Cons row rows)
  obtain w1 d1 a1 b1 where st: "summarize_row J E p row (w, d, a, b) = (w1, d1, a1, b1)"
    by (cases "summarize_row J E p row (w, d, a, b)")
  with Cons.prems have rest: "summarize_rows J E p rows (w1, d1, a1, b1) = (w', d', a', b')"
    by simp
  have one: "list_all2 (summarized_from (row # rows)) (items d) (items d1)"
    using summarize_row_from [OF st]
    by (rule list_all2_mono) (auto intro: summarized_from_mono)
  have two: "list_all2 (summarized_from (row # rows)) (items d1) (items d')"
    using Cons.IH [OF rest]
    by (rule list_all2_mono) (auto intro: summarized_from_mono)
  show ?case
    using one two by (rule list_all2_trans [rotated]) (rule summarized_from_trans)
qed

text \<open>
  C5. A selected row whose content is empty after trimming takes the turn of the loop
  that writes \<open>skipped\<close> and leaves the world as it is: no request goes to the provider.
  After the loop every item of that id is \<open>skipped\<close>. And an item is \<open>summarized\<close> after
  the loop only if it was before or a selected row of its id had content left after
  trimming.
\<close>

theorem blank_content_skipped:
  assumes "distinct (map fst rows)" and "(iid, title, ctext) \<in> set rows"
    and "strip (case ctext of Some c \<Rightarrow> c | None \<Rightarrow> []) = []"
    and "summarize_rows J E p rows (w, d, a, b) = (w', d', a', b')"
  shows "summarize_row J E p (iid, title, ctext) (w0, d0, a0, b0) =
           (w0, update_item d0 iid (\<lambda>i. i\<lparr>status := ''skipped''\<rparr>), a0, b0)
       \<and> (\<forall>i\<in>set (items d'). item_id i = iid \<longrightarrow> status i = ''skipped'')
       \<and> list_all2 (summarized_from rows) (items d) (items d')"
proof -
  have "list_all (\<lambda>i. status i = ''skipped'') (filter (\<lambda>i. item_id i = iid) (items d'))"
    using assms by (rule blank_row_skipped)
  then have "\<forall>i\<in>set (items d'). item_id i = iid \<longrightarrow> status i = ''skipped''"
    by (simp add: list_all_iff)
  then show ?thesis
    using summarize_row_blank [OF assms(3)] summarize_rows_from [OF assms(4)] by simp
qed

lemma example_strips: "strip ''   '' = []" "strip ''text'' = ''text''" "strip ''oops'' = ''oops''"
  by code_simp+

lemma range_LLM_MAX_RETRIES: "[0..<LLM_MAX_RETRIES] = [0, 1, 2]"
  by (simp add: LLM_MAX_RETRIES_def upt_rec)

lemma call_llm_replied:
  assumes "llm w (calls w) system user = Replied r"
  shows "call_llm w system user =
         (Inr r, w\<lparr>calls := Suc (calls w), llm_trace := llm_trace w @ [Ask system user]\<rparr>)"
  unfolding call_llm_def range_LLM_MAX_RETRIES
  using assms by (simp add: create_message_def)

lemma summary_text_shape:
  "summary_text \<noteq> []" "hd summary_text = CHR ''{''" "last summary_text = CHR ''}''"
  by (simp_all add: summary_text_def)

lemma strip_summary_text: "strip summary_text = summary_text"
  by (rule strip_id) (simp_all add: summary_text_shape isspace_def)

lemma parse_summary_text: "parse_summary_json example_json summary_text = Some summary_object"
proof -
  have "\<not> startswith summary_text ''```''"
    by (simp add: summary_text_def)
  then have "strip_fences summary_text = summary_text"
    by (simp add: strip_fences_def strip_summary_text)
  moreover have "try_parse example_json summary_text = Some summary_object"
    by (simp add: try_parse_def example_json_def REQUIRED_FIELDS_def summary_object_def)
  moreover have "summary_object \<noteq> []"
    by (simp add: summary_object_def)
  ultimately show ?thesis by (simp add: parse_summary_json_def)
qed

lemma example_provider: "get_llm_client example_env = Inr ''anthropic''"
  by (simp add: get_llm_client_def example_env_def truthy_def)

lemma example_model: "model_name example_env ''anthropic'' = ''claude-haiku-4-5-20251001''"
  by (simp add: model_name_def example_env_def)

lemma example_system_prompt: "SUMMARY_SYSTEM_PROMPT example_env = ''SYSTEM''"
  by (simp add: example_env_def)

lemma good_summarize_item:
  assumes "llm w = good_llm"
  shows "summarize_item example_json example_env ''anthropic'' w title content =
     (Inr (summary_object, ''claude-haiku-4-5-20251001''),
      w\<lparr>calls := Suc (calls w),
        llm_trace := llm_trace w @ [Ask ''SYSTEM'' (user_prompt title content)]\<rparr>)"
proof -
  have "llm w (calls w) (SUMMARY_SYSTEM_PROMPT example_env) (user_prompt title content) =
      Replied (Some summary_text)"
    using assms by (simp add: good_llm_def)
  from call_llm_replied [OF this] show ?thesis
    by (simp add: summarize_item_def example_model parse_summary_text example_system_prompt)
qed

lemma example_summary_run:
  "summarize_rows example_json example_env ''anthropic''
     [(1, ''T'', Some ''   ''), (2, ''T'', Some ''text'')] (fresh_llm_world good_llm, blank_db, 0, 0) =
   (\<lparr>llm = good_llm, calls = 1,
      llm_trace = [Ask ''SYSTEM'' (user_prompt ''T'' ''text''), Pause (1 / 2)]\<rparr>,
    \<lparr>sources = [example_row],
      items = [(stored_item 1 ''http://example.com/a'' ''   '')\<lparr>status := ''skipped''\<rparr>,
               (stored_item 2 ''http://example.com/b'' ''text'')
                 \<lparr>summary_json := Some summary_text,
                  model_used := Some ''claude-haiku-4-5-20251001'',
                  status := ''summarized''\<rparr>]\<rparr>,
    1, 0)"
proof -
  have w: "llm (fresh_llm_world good_llm) = good_llm"
    by (simp add: fresh_llm_world_def)
  have dumps: "json_dumps example_json (JObject summary_object) = summary_text"
    by (simp add: example_json_def)
  have ids: "item_id (stored_item n u c) = n" for n u c
    by (simp add: stored_item_def)
  show ?thesis
    by (simp add: summarize_row_def example_strips good_summarize_item dumps
        update_item_def blank_db_def ids pause_def fresh_llm_world_def)
qed


lemma example_selection:
  "select_new_items example_env (skip_old_items blank_db) =
     [(1, ''T'', Some ''   ''), (2, ''T'', Some ''text'')]"
  by (simp add: select_new_items_def skip_old_items_def blank_db_def stored_item_def
      order_by_published_desc_def published_le_def sql_limit_def example_env_def)

theorem blank_content_skipped_witness:
  "select_new_items example_env (skip_old_items blank_db) =
     [(1, ''T'', Some ''   ''), (2, ''T'', Some ''text'')]
   \<and> (\<exists>w' d'.
         summarize_rows example_json example_env ''anthropic''
           [(1, ''T'', Some ''   ''), (2, ''T'', Some ''text'')]
           (fresh_llm_world good_llm, blank_db, 0, 0) = (w', d', 1, 0)
       \<and> map status (items d') = [''skipped'', ''summarized'']
       \<and> llm_trace w' = [Ask ''SYSTEM'' (user_prompt ''T'' ''text''), Pause (1 / 2)]
       \<and> list_all2 (summarized_from [(1, ''T'', Some ''   ''), (2, ''T'', Some ''text'')])
             (items blank_db) (items d'))
   \<and> summarize_row example_json example_env ''anthropic'' (1, ''T'', Some ''   '')
         (fresh_llm_world good_llm, blank_db, 0, 0) =
       (fresh_llm_world good_llm, update_item blank_db 1 (\<lambda>i. i\<lparr>status := ''skipped''\<rparr>), 0, 0)"
proof -
  let ?rows = "[(1::nat, ''T'', Some ''   ''), (2, ''T'', Some ''text'')]"
  have d: "distinct (map fst ?rows)" by simp
  have m: "(1, ''T'', Some ''   '') \<in> set ?rows" by simp
  have blank: "strip (case Some ''   '' of Some c \<Rightarrow> c | None \<Rightarrow> []) = []"
    by (simp add: example_strips)
  note inst = blank_content_skipped [OF d m blank example_summary_run,
      of "fresh_llm_world good_llm" blank_db 0 0]
  show ?thesis
    using inst example_selection example_summary_run by (simp add: stored_item_def)
qed

section \<open>Invalid model output\<close>









section \<open>The summaries the store holds\<close>

lemma update_item_all:
  assumes "\<forall>i\<in>set (items d). Q i" and "\<And>i. Q i \<Longrightarrow> Q (f i)"
  shows "\<forall>i\<in>set (items (update_item d j f)). Q i"
  using assms by (auto simp: update_item_def)

lemma dumped_summary_valid:
  assumes "loads_inverts_dumps J" and "try_parse J t = Some s"
  shows "valid_summary J (i\<lparr>summary_json := Some (json_dumps J (JObject s)),
                             model_used := m, status := ''summarized''\<rparr>)"
proof -
  have l: "json_loads J t = Some (JObject s)" and r: "set REQUIRED_FIELDS \<subseteq> set (map fst s)"
    using try_parse_Some [OF assms(2)] by auto
  have "json_loads J (json_dumps J (JObject s)) = Some (JObject s)"
    using assms(1) l unfolding loads_inverts_dumps_def by blast
  then show ?thesis using r by (simp add: valid_summary_def)
qed

lemma summarize_row_valid:
  assumes "loads_inverts_dumps J"
    and "\<forall>i\<in>set (items d). status i = ''summarized'' \<longrightarrow> valid_summary J i"
    and "summarize_row J E p row (w, d, a, b) = (w', d', a', b')"
  shows "\<forall>i\<in>set (items d'). status i = ''summarized'' \<longrightarrow> valid_summary J i"
proof -
  obtain j t c where row: "row = (j, t, c)" by (cases row)
  have skip: "\<forall>i\<in>set (items (update_item d j (\<lambda>i. i\<lparr>status := ''skipped''\<rparr>))).
      status i = ''summarized'' \<longrightarrow> valid_summary J i"
    using assms(2) by (rule update_item_all) simp
  have summ: "\<forall>i\<in>set (items (update_item d j
        (\<lambda>i. i\<lparr>summary_json := Some (json_dumps J (JObject s)), model_used := Some m,
                 status := ''summarized''\<rparr>))).
      status i = ''summarized'' \<longrightarrow> valid_summary J i"
    if "try_parse J x = Some s" for x s m
    using assms(2) by (rule update_item_all) (simp add: dumped_summary_valid [OF assms(1) that])
  show ?thesis
    using assms(2,3) summarize_row_cases [of c J E p j t w d a b] skip summ
    unfolding row by auto
qed

lemma summarize_rows_valid:
  assumes "loads_inverts_dumps J"
    and "\<forall>i\<in>set (items d). status i = ''summarized'' \<longrightarrow> valid_summary J i"
    and "summarize_rows J E p rows (w, d, a, b) = (w', d', a', b')"
  shows "\<forall>i\<in>set (items d'). status i = ''summarized'' \<longrightarrow> valid_summary J i"
  using assms(2,3)
proof (induction rows arbitrary: w d a b)
  case Nil
  then show ?case by simp
next
  case (Cons row rows)
  obtain w1 d1 a1 b1 where st: "summarize_row J E p row (w, d, a, b) = (w1, d1, a1, b1)"
    by (cases "summarize_row J E p row (w, d, a, b)")
  with Cons.prems(2) have rest: "summarize_rows J E p rows (w1, d1, a1, b1) = (w', d', a', b')"
    by simp
  have "\<forall>i\<in>set (items d1). status i = ''summarized'' \<longrightarrow> valid_summary J i"
    using assms(1) Cons.prems(1) st by (rule summarize_row_valid)
  then show ?case using rest by (rule Cons.IH)
qed

lemma skip_old_items_valid:
  assumes "\<forall>i\<in>set (items d). status i = ''summarized'' \<longrightarrow> valid_summary J i"
  shows "\<forall>i\<in>set (items (skip_old_items d)). status i = ''summarized'' \<longrightarrow> valid_summary J i"
  using assms by (auto simp: skip_old_items_def)

lemma summarizer_main_valid:
  assumes "loads_inverts_dumps J"
    and "\<forall>i\<in>set (items d). status i = ''summarized'' \<longrightarrow> valid_summary J i"
    and "summarizer_main J E f d = (err, w', d', a, b)"
  shows "\<forall>i\<in>set (items d'). status i = ''summarized'' \<longrightarrow> valid_summary J i"
proof -
  let ?d1 = "skip_old_items d"
  let ?rows = "select_new_items E ?d1"
  have d1: "\<forall>i\<in>set (items ?d1). status i = ''summarized'' \<longrightarrow> valid_summary J i"
    using assms(2) by (rule skip_old_items_valid)
  show ?thesis
  proof (cases "?rows = [] \<or> (\<exists>e. get_llm_client E = Inl e)")
    case True
    then have "d' = ?d1"
      using assms(3) by (auto simp: summarizer_main_def Let_def split: if_splits)
    then show ?thesis using d1 by simp
  next
    case False
    then obtain p where p: "get_llm_client E = Inr p" by (cases "get_llm_client E") auto
    obtain w1 d2 a2 b2 where lp: "summarize_rows J E p ?rows (fresh_llm_world f, ?d1, 0, 0) =
        (w1, d2, a2, b2)"
      by (cases "summarize_rows J E p ?rows (fresh_llm_world f, ?d1, 0, 0)")
    have "d' = d2"
      using assms(3) False p lp by (simp add: summarizer_main_def Let_def)
    then show ?thesis
      using summarize_rows_valid [OF assms(1) d1 lp] by simp
  qed
qed

lemma extends_valid:
  assumes "extends_with_new d d'"
    and "\<forall>i\<in>set (items d). status i = ''summarized'' \<longrightarrow> valid_summary J i"
  shows "\<forall>i\<in>set (items d'). status i = ''summarized'' \<longrightarrow> valid_summary J i"
  using assms by (auto simp: extends_with_new_def list_all_iff)

text \<open>
  C2. In every store that runs of the two stages can leave, an item whose status is
  \<open>summarized\<close> has a \<open>summary_json\<close> that parses to an object with the six required
  fields, given that \<open>json.loads\<close> reads back what \<open>json.dumps\<close> writes of a value
  \<open>json.loads\<close> has returned.
\<close>

theorem summarized_items_valid:
  assumes "loads_inverts_dumps J" and "reachable J d"
    and "i \<in> set (items d)" and "status i = ''summarized''"
  shows "valid_summary J i"
proof -
  have "\<forall>i\<in>set (items d). status i = ''summarized'' \<longrightarrow> valid_summary J i"
    using assms(2)
  proof (induction rule: reachable.induct)
    case start
    show ?case by (simp add: init_db_def)
  next
    case (fetched d L srcs n err w d' cnt)
    have "extends_with_new d d'"
      using fetched.hyps(2) by (rule fetcher_main_extends)
    then show ?case using fetched.IH by (rule extends_valid)
  next
    case (summarized d E f err w d' a b)
    show ?case
      using assms(1) summarized.IH summarized.hyps(2) by (rule summarizer_main_valid)
  qed
  then show ?thesis using assms(3,4) by blast
qed

end
